theory Spec2Isabelle
  imports Main "HOL-Library.Multiset" "HOL-Library.Log_Nat"
begin

section \<open>JSON values\<close>

text \<open>
  What \<open>JSON.parse\<close> returns. A number is a double, here a rational or an infinity
  (\<open>1e999\<close> parses to \<open>Infinity\<close>); \<open>NaN\<close> is not in a file but comes out of
  conversions. An object is the list of its members, each key once.
\<close>

datatype number = NaN | NegInf | Finite rat | PosInf

datatype json =
    JNull
  | JBool bool
  | JNum number
  | JStr string
  | JArr "json list"
  | JObj "(string \<times> json) list"

text \<open>
  \<open>v[name]\<close> for a value \<open>v\<close> other than \<open>null\<close> and one of the names this program
  reads (\<open>id\<close>, \<open>text\<close>, \<open>options\<close>, \<open>correct\<close>, \<open>level\<close>, \<open>category\<close>, \<open>questions\<close>):
  the member of an object, and \<open>undefined\<close> (\<open>None\<close>) on an object without it and on
  every number, boolean, string and array, whose prototypes hold none of these names.
\<close>

definition get_member :: "json \<Rightarrow> string \<Rightarrow> json option" where
  "get_member v name = (case v of JObj ms \<Rightarrow> map_of ms name | _ \<Rightarrow> None)"

text \<open>The values that count as true in \<open>a || b\<close> and in \<open>if (a)\<close>.\<close>

fun truthy :: "json \<Rightarrow> bool" where
  "truthy JNull = False"
| "truthy (JBool b) = b"
| "truthy (JNum n) = (n \<noteq> NaN \<and> n \<noteq> Finite 0)"
| "truthy (JStr s) = (s \<noteq> [])"
| "truthy (JArr xs) = True"
| "truthy (JObj ms) = True"

text \<open>\<open>x < y\<close> on numbers: false as soon as one of them is \<open>NaN\<close>.\<close>

fun number_less :: "number \<Rightarrow> number \<Rightarrow> bool" where
  "number_less (Finite a) (Finite b) = (a < b)"
| "number_less NegInf (Finite b) = True"
| "number_less NegInf PosInf = True"
| "number_less (Finite a) PosInf = True"
| "number_less x y = False"

section \<open>Question bank (src/services/questionService.js)\<close>

text \<open>
  Every \<open>throw new Error(...)\<close> of the service is a constructor; the values the message
  interpolates are its arguments, as values (how the message prints them is not
  modelled). \<open>None\<close> as the id of \<open>MissingField\<close> is the text \<open>unknown\<close> that
  \<open>question.id || 'unknown'\<close> prints; elsewhere the id argument is \<open>question.id\<close> as it
  is (\<open>None\<close> printing as \<open>undefined\<close>). \<open>TypeError\<close> is the exception of the runtime for
  a property of \<open>null\<close> or \<open>undefined\<close> and for a loop over a value that is not iterable.
\<close>

datatype error =
    MissingField "json option" string
  | BadOptions "json option"
  | BadCorrect "json option"
  | BadLevel "json option" "json option"
  | BadCategory "json option" "json option"
  | ReadFailed
  | LoadFailed error
  | NotFound int
  | TypeError

text \<open>
  The conversion to a number that \<open><\<close> and \<open>>\<close> apply to an operand when the other one
  is a number. \<open>undefined\<close> converts to \<open>NaN\<close>, \<open>null\<close> to 0, \<open>false\<close> and \<open>true\<close> to 0 and
  1. For a string, an array and an object the conversion is the parameter \<open>coerce\<close>
  (the number a string spells, \<open>NaN\<close> if it spells none; an array and an object go
  through their string, and an object whose \<open>toString\<close> and \<open>valueOf\<close> members are not
  functions throws).
\<close>

type_synonym coercion = "json \<Rightarrow> error + number"

definition ToNumber :: "coercion \<Rightarrow> json option \<Rightarrow> error + number" where
  "ToNumber coerce v =
     (case v of
        None \<Rightarrow> Inr NaN
      | Some JNull \<Rightarrow> Inr (Finite 0)
      | Some (JBool b) \<Rightarrow> Inr (Finite (if b then 1 else 0))
      | Some (JNum n) \<Rightarrow> Inr n
      | Some x \<Rightarrow> coerce x)"

text \<open>\<open>v < n\<close> and \<open>v > n\<close> for a number \<open>n\<close>.\<close>

definition less_than :: "coercion \<Rightarrow> json option \<Rightarrow> number \<Rightarrow> error + bool" where
  "less_than coerce v n =
     (case ToNumber coerce v of Inl e \<Rightarrow> Inl e | Inr m \<Rightarrow> Inr (number_less m n))"

definition greater_than :: "coercion \<Rightarrow> json option \<Rightarrow> number \<Rightarrow> error + bool" where
  "greater_than coerce v n =
     (case ToNumber coerce v of Inl e \<Rightarrow> Inl e | Inr m \<Rightarrow> Inr (number_less n m))"

text \<open>\<open>names.includes(v)\<close> for an array of strings: only an equal string is included.\<close>

definition array_includes :: "string list \<Rightarrow> json option \<Rightarrow> bool" where
  "array_includes names v = (case v of Some (JStr s) \<Rightarrow> s \<in> set names | _ \<Rightarrow> False)"

definition requiredFields :: "string list" where
  "requiredFields = [''id'', ''text'', ''options'', ''correct'', ''level'', ''category'']"

definition validLevels :: "string list" where
  "validLevels = [''A1'', ''A2'', ''B1'', ''B2'']"

definition validCategories :: "string list" where
  "validCategories = [''vocabulary'', ''grammar'']"

text \<open>\<open>question.id || 'unknown'\<close>: an absent id and a falsy one (0, \<open>null\<close>, the empty string, \<open>false\<close>) print \<open>unknown\<close>.\<close>

definition id_or_unknown :: "json \<Rightarrow> json option" where
  "id_or_unknown question =
     (case get_member question ''id'' of
        None \<Rightarrow> None
      | Some i \<Rightarrow> if truthy i then Some i else None)"

text \<open>\<open>!Array.isArray(question.options) || question.options.length !== 4\<close>\<close>

definition options_not_four :: "json \<Rightarrow> bool" where
  "options_not_four question =
     (case get_member question ''options'' of
        Some (JArr os) \<Rightarrow> length os \<noteq> 4
      | _ \<Rightarrow> True)"

text \<open>\<open>question.correct < 0 || question.correct > 3\<close>\<close>

definition correct_out_of_range :: "coercion \<Rightarrow> json \<Rightarrow> error + bool" where
  "correct_out_of_range coerce question =
     (case less_than coerce (get_member question ''correct'') (Finite 0) of
        Inl e \<Rightarrow> Inl e
      | Inr True \<Rightarrow> Inr True
      | Inr False \<Rightarrow> greater_than coerce (get_member question ''correct'') (Finite 3))"

text \<open>
  The body of the \<open>for (const question of this.questions)\<close> loop of
  \<open>validateQuestions\<close>: the checks in the order of the source, each throwing at once.
  The first read of a field of a question that is \<open>null\<close> is a TypeError. A field is
  missing only if it reads \<open>undefined\<close>: a field that is \<open>null\<close> is not missing. The
  index check compares after conversion to a number, so that it lets pass whatever
  converts into the interval from 0 to 3 or to \<open>NaN\<close>.
\<close>

definition validateQuestion :: "coercion \<Rightarrow> json \<Rightarrow> error + unit" where
  "validateQuestion coerce question =
     (if question = JNull then Inl TypeError
      else
        (case find (\<lambda>field. get_member question field = None) requiredFields of
           Some field \<Rightarrow> Inl (MissingField (id_or_unknown question) field)
         | None \<Rightarrow>
            if options_not_four question
              then Inl (BadOptions (get_member question ''id''))
            else
              (case correct_out_of_range coerce question of
                 Inl e \<Rightarrow> Inl e
               | Inr True \<Rightarrow> Inl (BadCorrect (get_member question ''id''))
               | Inr False \<Rightarrow>
                  if \<not> array_includes validLevels (get_member question ''level'')
                    then Inl (BadLevel (get_member question ''id'') (get_member question ''level''))
                  else if \<not> array_includes validCategories (get_member question ''category'')
                    then Inl (BadCategory (get_member question ''id'') (get_member question ''category''))
                  else Inr ())))"

fun validateQuestions_loop :: "coercion \<Rightarrow> json list \<Rightarrow> error + unit" where
  "validateQuestions_loop coerce [] = Inr ()"
| "validateQuestions_loop coerce (q # qs) =
     (case validateQuestion coerce q of Inl e \<Rightarrow> Inl e | Inr u \<Rightarrow> validateQuestions_loop coerce qs)"

text \<open>
  What \<open>for (... of v)\<close> runs through: the elements of an array, the characters of a
  string, each a string; any other value is not iterable.
\<close>

definition iterate :: "json \<Rightarrow> error + json list" where
  "iterate v =
     (case v of
        JArr xs \<Rightarrow> Inr xs
      | JStr s \<Rightarrow> Inr (map (\<lambda>c. JStr [c]) s)
      | _ \<Rightarrow> Inl TypeError)"

text \<open>\<open>validateQuestions\<close> on the value of \<open>this.questions\<close>.\<close>

definition validateQuestions :: "coercion \<Rightarrow> json \<Rightarrow> error + unit" where
  "validateQuestions coerce this_questions =
     (case iterate this_questions of
        Inl e \<Rightarrow> Inl e
      | Inr qs \<Rightarrow> validateQuestions_loop coerce qs)"

text \<open>
  What \<open>loadQuestions\<close> reads: the file cannot be read or parsed, or it parses to a
  value.
\<close>

datatype source = Unreadable | Parsed json

text \<open>\<open>parsed.questions || []\<close> for a value \<open>parsed\<close> other than \<open>null\<close>.\<close>

definition questions_or_empty :: "json \<Rightarrow> json" where
  "questions_or_empty parsed =
     (case get_member parsed ''questions'' of
        None \<Rightarrow> JArr []
      | Some qs \<Rightarrow> if truthy qs then qs else JArr [])"

text \<open>
  \<open>loadQuestions\<close> on a service whose \<open>this.questions\<close> is the second argument: it
  assigns \<open>this.questions\<close> and validates afterwards; the \<open>catch\<close> wraps the error and
  throws again. The value of \<open>this.questions\<close> after the call is returned beside the
  outcome, since the assignment is not undone. For a file that holds \<open>null\<close> the read
  of \<open>parsed.questions\<close> throws before the assignment.
\<close>

definition loadQuestions :: "coercion \<Rightarrow> json \<Rightarrow> source \<Rightarrow> json \<times> (error + unit)" where
  "loadQuestions coerce this_questions src =
     (case src of
        Unreadable \<Rightarrow> (this_questions, Inl (LoadFailed ReadFailed))
      | Parsed parsed \<Rightarrow>
          if parsed = JNull then (this_questions, Inl (LoadFailed TypeError))
          else
            (let assigned = questions_or_empty parsed
             in (assigned, case validateQuestions coerce assigned of
                             Inl e \<Rightarrow> Inl (LoadFailed e)
                           | Inr u \<Rightarrow> Inr ())))"

text \<open>
  The constructor sets \<open>this.questions = []\<close> and loads: an exception of
  \<open>loadQuestions\<close> leaves no service object, otherwise the service holds what was
  loaded.
\<close>

definition new_QuestionService :: "coercion \<Rightarrow> source \<Rightarrow> error + json" where
  "new_QuestionService coerce src =
     (case loadQuestions coerce (JArr []) src of
        (this_questions, Inl e) \<Rightarrow> Inl e
      | (this_questions, Inr u) \<Rightarrow> Inr this_questions)"

definition reloadQuestions :: "coercion \<Rightarrow> json \<Rightarrow> source \<Rightarrow> json \<times> (error + unit)" where
  "reloadQuestions coerce this_questions src = loadQuestions coerce this_questions src"

section \<open>Questions of the documented types\<close>

text \<open>
  The other methods of the service, the sessions and the assessment are modelled on
  questions whose fields have the types the README documents: \<open>id\<close>, \<open>correct\<close> and
  \<open>weight\<close> are integral numbers, \<open>options\<close> is an array of strings, the others are
  strings. A field that is absent reads as \<open>undefined\<close> in JavaScript and is \<open>None\<close>
  here.
\<close>

record question =
  q_id :: "int option"
  q_text :: "string option"
  q_options :: "string list option"
  q_correct :: "int option"
  q_level :: "string option"
  q_category :: "string option"
  q_weight :: "int option"

text \<open>The JSON value of such a question, of a bank of them and of the file of the bank.\<close>

definition json_int :: "int \<Rightarrow> json" where
  "json_int i = JNum (Finite (of_int i))"

definition json_member :: "string \<Rightarrow> json option \<Rightarrow> (string \<times> json) list" where
  "json_member name v = (case v of None \<Rightarrow> [] | Some x \<Rightarrow> [(name, x)])"

definition question_json :: "question \<Rightarrow> json" where
  "question_json q =
     JObj (json_member ''id'' (map_option json_int (q_id q))
         @ json_member ''text'' (map_option JStr (q_text q))
         @ json_member ''options'' (map_option (\<lambda>os. JArr (map JStr os)) (q_options q))
         @ json_member ''correct'' (map_option json_int (q_correct q))
         @ json_member ''level'' (map_option JStr (q_level q))
         @ json_member ''category'' (map_option JStr (q_category q))
         @ json_member ''weight'' (map_option json_int (q_weight q)))"

definition bank_json :: "question list \<Rightarrow> json" where
  "bank_json qs = JArr (map question_json qs)"

definition file_json :: "question list \<Rightarrow> json" where
  "file_json qs = JObj [(''questions'', bank_json qs)]"

text \<open>A service that holds the bank \<open>bank_json (svc_questions svc)\<close>.\<close>

record questionService =
  svc_questions :: "question list"

definition getQuestionsByLevel :: "questionService \<Rightarrow> string \<Rightarrow> question list" where
  "getQuestionsByLevel svc level = filter (\<lambda>q. q_level q = Some level) (svc_questions svc)"

definition getQuestionById :: "questionService \<Rightarrow> int \<Rightarrow> question option" where
  "getQuestionById svc i = find (\<lambda>q. q_id q = Some i) (svc_questions svc)"

record checkResult =
  cr_isCorrect :: bool
  cr_correctAnswer :: "int option"
  cr_correctOption :: "string option"
  cr_selectedOption :: int
  cr_weight :: int

text \<open>\<open>w || 1\<close> on an optional number: absent and 0 are falsy.\<close>

definition or_one :: "int option \<Rightarrow> int" where
  "or_one w = (case w of None \<Rightarrow> 1 | Some n \<Rightarrow> if n = 0 then 1 else n)"

text \<open>
  \<open>question.options[question.correct]\<close>: reading property of \<open>undefined\<close> is a
  TypeError; an index outside the array (or an absent index) reads \<open>undefined\<close>.
\<close>

definition option_at :: "string list \<Rightarrow> int option \<Rightarrow> string option" where
  "option_at os c =
     (case c of None \<Rightarrow> None
      | Some i \<Rightarrow> if 0 \<le> i \<and> nat i < length os then Some (os ! nat i) else None)"

definition checkAnswer :: "questionService \<Rightarrow> int \<Rightarrow> int \<Rightarrow> error + checkResult" where
  "checkAnswer svc questionId selectedOption =
     (case getQuestionById svc questionId of
        None \<Rightarrow> Inl (NotFound questionId)
      | Some question \<Rightarrow>
         (case q_options question of
            None \<Rightarrow> Inl TypeError
          | Some os \<Rightarrow>
             Inr \<lparr>cr_isCorrect = (q_correct question = Some selectedOption),
                  cr_correctAnswer = q_correct question,
                  cr_correctOption = option_at os (q_correct question),
                  cr_selectedOption = selectedOption,
                  cr_weight = or_one (q_weight question)\<rparr>))"

section \<open>Session store (src/services/sessionService.js)\<close>

text \<open>
  A reading of the clock (\<open>new Date().toISOString()\<close>) is a number; each function that
  stamps a time takes the reading as the argument \<open>now\<close>.
\<close>

type_synonym time = nat

record answerRecord =
  r_questionId :: int
  r_selectedOption :: int
  r_isCorrect :: bool
  r_timestamp :: time

text \<open>The object the caller hands to \<open>recordAnswer\<close>.\<close>

record answer =
  a_questionId :: int
  a_selectedOption :: int
  a_isCorrect :: bool
  a_weight :: "int option"

record session =
  userId :: int
  username :: "string option"
  startTime :: time
  answers :: "answerRecord list"
  currentQuestion :: nat
  questions :: "question list"
  score :: int
  isComplete :: bool
  state :: string
  endTime :: "time option"

text \<open>
  The cache maps \<open>userId.toString()\<close> to the session; the key is the user id itself
  here. Expiry of entries by the cache's timer is not part of the model: an expired
  session is one the cache no longer holds.
\<close>

type_synonym cache = "int \<rightharpoonup> session"

text \<open>\<open>username || null\<close>: an absent and an empty name are both stored as null.\<close>

definition createSession :: "cache \<Rightarrow> time \<Rightarrow> int \<Rightarrow> string option \<Rightarrow> cache \<times> session" where
  "createSession c now uid uname =
     (let s = \<lparr>userId = uid,
                username = (case uname of None \<Rightarrow> None | Some u \<Rightarrow> if u = [] then None else Some u),
                startTime = now, answers = [],
                currentQuestion = 0, questions = [], score = 0, isComplete = False,
                state = ''ready'', endTime = None\<rparr>
      in (c(uid \<mapsto> s), s))"

definition getSession :: "cache \<Rightarrow> int \<Rightarrow> session option" where
  "getSession c uid = c uid"

definition updateSession :: "cache \<Rightarrow> int \<Rightarrow> (session \<Rightarrow> session) \<Rightarrow> cache \<times> session option" where
  "updateSession c uid updates =
     (case getSession c uid of
        None \<Rightarrow> (c, None)
      | Some s \<Rightarrow> (let updatedSession = updates s in (c(uid \<mapsto> updatedSession), Some updatedSession)))"

definition recordAnswer :: "cache \<Rightarrow> time \<Rightarrow> int \<Rightarrow> answer \<Rightarrow> cache \<times> session option" where
  "recordAnswer c now uid a =
     (case getSession c uid of
        None \<Rightarrow> (c, None)
      | Some s \<Rightarrow>
         (let answerRecord = \<lparr>r_questionId = a_questionId a,
                               r_selectedOption = a_selectedOption a,
                               r_isCorrect = a_isCorrect a,
                               r_timestamp = now\<rparr>;
              s1 = s\<lparr>answers := answers s @ [answerRecord]\<rparr>;
              s2 = s1\<lparr>currentQuestion := currentQuestion s1 + 1\<rparr>;
              s3 = (if a_isCorrect a then s2\<lparr>score := score s2 + or_one (a_weight a)\<rparr> else s2)
          in (c(uid \<mapsto> s3), Some s3)))"

definition setQuestions :: "cache \<Rightarrow> int \<Rightarrow> question list \<Rightarrow> cache \<times> session option" where
  "setQuestions c uid qs = updateSession c uid (\<lambda>s. s\<lparr>questions := qs\<rparr>)"

definition getCurrentQuestion :: "cache \<Rightarrow> int \<Rightarrow> question option" where
  "getCurrentQuestion c uid =
     (case getSession c uid of
        None \<Rightarrow> None
      | Some s \<Rightarrow> if currentQuestion s \<ge> length (questions s) then None
                  else Some (questions s ! currentQuestion s))"

definition isTestComplete :: "cache \<Rightarrow> int \<Rightarrow> bool" where
  "isTestComplete c uid =
     (case getSession c uid of
        None \<Rightarrow> False
      | Some s \<Rightarrow> currentQuestion s \<ge> length (questions s))"

definition completeSession :: "cache \<Rightarrow> time \<Rightarrow> int \<Rightarrow> cache \<times> session option" where
  "completeSession c now uid =
     updateSession c uid (\<lambda>s. s\<lparr>isComplete := True, state := ''completed'', endTime := Some now\<rparr>)"

definition clearSession :: "cache \<Rightarrow> int \<Rightarrow> cache \<times> bool" where
  "clearSession c uid = (c(uid := None), c uid \<noteq> None)"

definition resetSession :: "cache \<Rightarrow> time \<Rightarrow> int \<Rightarrow> string option \<Rightarrow> cache \<times> session" where
  "resetSession c now uid uname = createSession (fst (clearSession c uid)) now uid uname"

section \<open>JavaScript numbers\<close>

text \<open>
  A JavaScript number is an IEEE 754 double. Integers of magnitude below \<open>2^53\<close> and
  their sums are exact and are \<open>int\<close> here. A quotient or a product is the exact
  rational result rounded to the nearest double, ties to the even mantissa
  (\<open>to_double\<close>); doubles are the rationals \<open>m * 2^(k - 52)\<close> with
  \<open>2^52 \<le> m < 2^53\<close>, and 0. Overflow and subnormal numbers do not arise for the
  quotients of integers below \<open>2^53\<close> that the program forms.
\<close>

definition pow2 :: "int \<Rightarrow> rat" where
  "pow2 k = (if 0 \<le> k then 2 ^ nat k else 1 / 2 ^ nat (- k))"

text \<open>
  For \<open>x > 0\<close>: the exponent \<open>k\<close> with \<open>2^k \<le> x < 2^(k+1)\<close>, found from the numbers of
  binary digits (\<open>bitlen\<close>) of numerator and denominator.
\<close>

definition floor_log2 :: "rat \<Rightarrow> int" where
  "floor_log2 x =
     (let k0 = bitlen (fst (quotient_of x)) - bitlen (snd (quotient_of x))
      in if pow2 k0 \<le> x then k0 else k0 - 1)"

definition round_ties_even :: "rat \<Rightarrow> int" where
  "round_ties_even m =
     (let f = \<lfloor>m\<rfloor>; d = m - of_int f
      in if d < 1 / 2 then f else if 1 / 2 < d then f + 1 else if even f then f else f + 1)"

definition to_double :: "rat \<Rightarrow> rat" where
  "to_double x =
     (if x = 0 then 0
      else (let k = floor_log2 \<bar>x\<bar>; m = round_ties_even (\<bar>x\<bar> * pow2 (52 - k))
            in sgn x * (of_int m * pow2 (k - 52))))"

text \<open>\<open>Math.round\<close>: the nearest integer, a tie going up.\<close>

definition Math_round :: "rat \<Rightarrow> int" where
  "Math_round x = \<lfloor>x + 1 / 2\<rfloor>"

text \<open>\<open>Math.round((a / b) * 100)\<close> for integers \<open>a\<close> and \<open>b \<noteq> 0\<close>.\<close>

definition round_percent :: "int \<Rightarrow> int \<Rightarrow> int" where
  "round_percent a b = Math_round (to_double (to_double (of_int a / of_int b) * 100))"

section \<open>Scoring and levels (assessmentService.js, src/utils/helpers.js)\<close>

record levelRange =
  min_pct :: int
  max_pct :: int

record levelThresholds =
  lt_A1 :: levelRange
  lt_A2 :: levelRange
  lt_B1 :: levelRange
  lt_B2 :: levelRange

text \<open>\<open>config.scoring.weights\<close>, \<open>config.scoring.levelThresholds\<close>, \<open>config.recommendations\<close>.\<close>

record config =
  weights :: "string \<rightharpoonup> int"
  thresholds :: levelThresholds
  recommendations :: "string \<rightharpoonup> string"

definition getDefaultConfig :: config where
  "getDefaultConfig =
     \<lparr>weights = [''A1'' \<mapsto> 1, ''A2'' \<mapsto> 2, ''B1'' \<mapsto> 3, ''B2'' \<mapsto> 4],
      thresholds = \<lparr>lt_A1 = \<lparr>min_pct = 0, max_pct = 25\<rparr>,
                     lt_A2 = \<lparr>min_pct = 26, max_pct = 50\<rparr>,
                     lt_B1 = \<lparr>min_pct = 51, max_pct = 75\<rparr>,
                     lt_B2 = \<lparr>min_pct = 76, max_pct = 100\<rparr>\<rparr>,
      recommendations =
        [''A1'' \<mapsto> ''Focus on basic vocabulary and simple grammar structures.'',
         ''A2'' \<mapsto> ''Practice past and future tenses, expand your vocabulary.'',
         ''B1'' \<mapsto> ''Work on more complex grammar and improve fluency.'',
         ''B2'' \<mapsto> ''Focus on advanced vocabulary and complex sentence structures.'']\<rparr>"

definition determineLevel :: "config \<Rightarrow> int \<Rightarrow> string" where
  "determineLevel cfg percentage =
     (if percentage \<le> max_pct (lt_A1 (thresholds cfg)) then ''A1''
      else if percentage \<le> max_pct (lt_A2 (thresholds cfg)) then ''A2''
      else if percentage \<le> max_pct (lt_B1 (thresholds cfg)) then ''B1''
      else ''B2'')"

definition getLevelFromScore :: "int \<Rightarrow> string" where
  "getLevelFromScore percentage =
     (if percentage \<le> 25 then ''A1''
      else if percentage \<le> 50 then ''A2''
      else if percentage \<le> 75 then ''B1''
      else ''B2'')"

definition calculatePercentage :: "int \<Rightarrow> int \<Rightarrow> int" where
  "calculatePercentage v t = (if t = 0 then 0 else round_percent v t)"

definition getRecommendation :: "config \<Rightarrow> string \<Rightarrow> string" where
  "getRecommendation cfg lvl =
     (case recommendations cfg lvl of
        None \<Rightarrow> ''Keep practicing to improve your English skills!''
      | Some r \<Rightarrow> if r = [] then ''Keep practicing to improve your English skills!'' else r)"

record stat =
  st_correct :: nat
  st_total :: nat

type_synonym stats = "string \<rightharpoonup> stat"

text \<open>
  \<open>if (stats[key]) { stats[key].total++; if (answer.isCorrect) stats[key].correct++ }\<close>
  for a key that may be absent; a key the table does not hold is skipped.
\<close>

definition bump :: "stats \<Rightarrow> string option \<Rightarrow> bool \<Rightarrow> stats" where
  "bump st key ok =
     (case key of
        None \<Rightarrow> st
      | Some k \<Rightarrow>
         (case st k of
            None \<Rightarrow> st
          | Some e \<Rightarrow> st(k \<mapsto> \<lparr>st_correct = (if ok then st_correct e + 1 else st_correct e),
                                  st_total = st_total e + 1\<rparr>)))"

text \<open>\<open>a || b\<close> on optional numbers.\<close>

definition js_or :: "int option \<Rightarrow> int option \<Rightarrow> int option" where
  "js_or a b = (case a of None \<Rightarrow> b | Some n \<Rightarrow> if n = 0 then b else a)"

text \<open>\<open>question.weight || this.config.scoring.weights[question.level] || 1\<close>\<close>

definition resolve_weight :: "config \<Rightarrow> question \<Rightarrow> int" where
  "resolve_weight cfg q =
     or_one (js_or (q_weight q) (case q_level q of None \<Rightarrow> None | Some l \<Rightarrow> weights cfg l))"

text \<open>The variables the loop over the answers updates.\<close>

record tally =
  t_totalWeight :: int
  t_earnedWeight :: int
  t_categoryStats :: stats
  t_levelStats :: stats

definition tally0 :: tally where
  "tally0 = \<lparr>t_totalWeight = 0, t_earnedWeight = 0,
             t_categoryStats = [''vocabulary'' \<mapsto> \<lparr>st_correct = 0, st_total = 0\<rparr>,
                                ''grammar'' \<mapsto> \<lparr>st_correct = 0, st_total = 0\<rparr>],
             t_levelStats = [''A1'' \<mapsto> \<lparr>st_correct = 0, st_total = 0\<rparr>,
                             ''A2'' \<mapsto> \<lparr>st_correct = 0, st_total = 0\<rparr>,
                             ''B1'' \<mapsto> \<lparr>st_correct = 0, st_total = 0\<rparr>,
                             ''B2'' \<mapsto> \<lparr>st_correct = 0, st_total = 0\<rparr>]\<rparr>"

text \<open>One pass of \<open>for (const answer of answers)\<close>; \<open>continue\<close> leaves the tally as it is.\<close>

definition tally_answer :: "config \<Rightarrow> question list \<Rightarrow> tally \<Rightarrow> answerRecord \<Rightarrow> tally" where
  "tally_answer cfg qs t a =
     (case find (\<lambda>q. q_id q = Some (r_questionId a)) qs of
        None \<Rightarrow> t
      | Some question \<Rightarrow>
         (let weight = resolve_weight cfg question
          in \<lparr>t_totalWeight = t_totalWeight t + weight,
              t_earnedWeight = (if r_isCorrect a then t_earnedWeight t + weight else t_earnedWeight t),
              t_categoryStats = bump (t_categoryStats t) (q_category question) (r_isCorrect a),
              t_levelStats = bump (t_levelStats t) (q_level question) (r_isCorrect a)\<rparr>))"

fun tally_answers :: "config \<Rightarrow> question list \<Rightarrow> tally \<Rightarrow> answerRecord list \<Rightarrow> tally" where
  "tally_answers cfg qs t [] = t"
| "tally_answers cfg qs t (a # as) = tally_answers cfg qs (tally_answer cfg qs t a) as"

definition stat_percentage :: "stat \<Rightarrow> int" where
  "stat_percentage e =
     (if st_total e > 0 then round_percent (int (st_correct e)) (int (st_total e)) else 0)"

record assessment =
  level :: string
  percentageScore :: int
  totalQuestions :: nat
  correctAnswers :: nat
  categoryStats :: stats
  categoryPercentages :: "string \<rightharpoonup> int"
  levelStats :: stats
  levelPercentages :: "string \<rightharpoonup> int"
  earnedWeight :: int
  totalWeight :: int
  recommendation :: string
  completedAt :: time

definition calculateAssessment :: "config \<Rightarrow> time \<Rightarrow> session \<Rightarrow> question list \<Rightarrow> assessment" where
  "calculateAssessment cfg now s qs =
     (let t = tally_answers cfg qs tally0 (answers s);
          pct = (if t_totalWeight t > 0 then round_percent (t_earnedWeight t) (t_totalWeight t) else 0);
          lvl = determineLevel cfg pct
      in \<lparr>level = lvl,
          percentageScore = pct,
          totalQuestions = length (answers s),
          correctAnswers = length (filter r_isCorrect (answers s)),
          categoryStats = t_categoryStats t,
          categoryPercentages = map_option stat_percentage \<circ> t_categoryStats t,
          levelStats = t_levelStats t,
          levelPercentages = map_option stat_percentage \<circ> t_levelStats t,
          earnedWeight = t_earnedWeight t,
          totalWeight = t_totalWeight t,
          recommendation = getRecommendation cfg lvl,
          completedAt = now\<rparr>)"

section \<open>Question selection (questionService.js)\<close>

text \<open>
  The random source: \<open>rnd k n\<close> is the value of \<open>Math.floor(Math.random() * n)\<close> at the
  \<open>k\<close>-th call of \<open>Math.random\<close> from now on. \<open>Math.random\<close> returns a double in
  \<open>[0, 1)\<close>, so the value is below \<open>n\<close> (\<open>fair\<close>). A function that draws returns the
  source shifted past its draws.
\<close>

type_synonym random = "nat \<Rightarrow> nat \<Rightarrow> nat"

definition fair :: "random \<Rightarrow> bool" where
  "fair rnd = (\<forall>k n. 0 < n \<longrightarrow> rnd k n < n)"

text \<open>
  \<open>Math.floor(r * n)\<close> for the double \<open>r\<close> that a call of \<open>Math.random\<close> returned and an
  array length \<open>n\<close>: the product is rounded to a double before the floor is taken.
\<close>

definition floor_times :: "rat \<Rightarrow> nat \<Rightarrow> nat" where
  "floor_times r n = nat \<lfloor>to_double (r * of_nat n)\<rfloor>"

text \<open>
  The loop \<open>for (let i = shuffled.length - 1; i > 0; i--)\<close> of \<open>shuffleArray\<close>, at
  \<open>i = Suc i'\<close>: the swap reads both cells before it writes.
\<close>

fun shuffle_loop :: "nat \<Rightarrow> 'a list \<Rightarrow> random \<Rightarrow> 'a list \<times> random" where
  "shuffle_loop 0 shuffled rnd = (shuffled, rnd)"
| "shuffle_loop (Suc i) shuffled rnd =
     (let j = rnd 0 (Suc i + 1)
      in shuffle_loop i (shuffled[Suc i := shuffled ! j, j := shuffled ! Suc i]) (\<lambda>k. rnd (Suc k)))"

definition shuffleArray :: "'a list \<Rightarrow> random \<Rightarrow> 'a list \<times> random" where
  "shuffleArray array rnd = shuffle_loop (length array - 1) array rnd"

text \<open>\<open>array.slice(0, count)\<close>: a negative \<open>count\<close> counts from the end.\<close>

definition slice0 :: "'a list \<Rightarrow> int \<Rightarrow> 'a list" where
  "slice0 xs n = (if 0 \<le> n then take (nat n) xs else take (length xs - nat (- n)) xs)"

record testConfig =
  tc_totalQuestions :: "int option"
  tc_questionsPerLevel :: "(string \<times> int) list option"

text \<open>
  Both loops of \<open>selectQuestionsForTest\<close> have the same body: for a level and a count,
  shuffle the questions of the level, keep the first \<open>count\<close>, push them. The first
  loop runs over \<open>Object.entries(questionsPerLevel)\<close>, the second over the four levels
  with the count \<open>Math.floor(totalQuestions / levels.length)\<close> (\<open>level_entries\<close>).
\<close>

definition level_entries :: "testConfig \<Rightarrow> (string \<times> int) list" where
  "level_entries cfg =
     (let total = (case tc_totalQuestions cfg of None \<Rightarrow> 20 | Some n \<Rightarrow> n)
      in case tc_questionsPerLevel cfg of
           Some per \<Rightarrow> per
         | None \<Rightarrow> (let levels = [''A1'', ''A2'', ''B1'', ''B2''];
                        perLevel = total div int (length levels)
                    in map (\<lambda>l. (l, perLevel)) levels))"

fun select_levels ::
  "questionService \<Rightarrow> (string \<times> int) list \<Rightarrow> question list \<Rightarrow> random \<Rightarrow> question list \<times> random" where
  "select_levels svc [] selectedQuestions rnd = (selectedQuestions, rnd)"
| "select_levels svc ((lvl, n) # rest) selectedQuestions rnd =
     (case shuffleArray (getQuestionsByLevel svc lvl) rnd of
        (shuffled, rnd') \<Rightarrow> select_levels svc rest (selectedQuestions @ slice0 shuffled n) rnd')"

definition selectQuestionsForTest ::
  "questionService \<Rightarrow> testConfig \<Rightarrow> random \<Rightarrow> question list \<times> random" where
  "selectQuestionsForTest svc cfg rnd =
     (case select_levels svc (level_entries cfg) [] rnd of
        (selectedQuestions, rnd') \<Rightarrow> shuffleArray selectedQuestions rnd')"

section \<open>The test flow (src/handlers/callbackHandlers.js)\<close>

text \<open>
  The messages a handler sends, by kind. The callback data \<open>answer_<id>_<index>\<close> is
  written by \<open>sendQuestion\<close> from two integers; a handler takes them parsed. One
  event is handled to its end before the next.
\<close>

datatype out =
    SessionExpired
  | NoActiveTest
  | InvalidAnswer
  | Instructions
  | Feedback bool "string option"
  | QuestionSent question
  | CompletionMessage
  | Results assessment
  | Forwarded assessment
  | RestartOffer
  | ResultsNotAvailable
  | ErrorOccurred

record env =
  e_questionService :: questionService
  e_assessmentConfig :: config
  e_totalQuestions :: "int option"
  e_questionsPerLevel :: "(string \<times> int) list option"
  e_monitoring :: bool

definition completeTest :: "env \<Rightarrow> cache \<Rightarrow> time \<Rightarrow> int \<Rightarrow> cache \<times> out list" where
  "completeTest e c now uid =
     (case getSession c uid of
        None \<Rightarrow> (c, [ResultsNotAvailable])
      | Some s \<Rightarrow>
         (let c1 = fst (completeSession c now uid);
              a = calculateAssessment (e_assessmentConfig e) now s (questions s);
              c2 = fst (clearSession c1 uid);
              c3 = fst (createSession c2 now uid (username s))
          in (c3, [CompletionMessage, Results a] @ (if e_monitoring e then [Forwarded a] else [])
                   @ [RestartOffer])))"

definition sendQuestion :: "env \<Rightarrow> cache \<Rightarrow> time \<Rightarrow> int \<Rightarrow> cache \<times> out list" where
  "sendQuestion e c now uid =
     (case getSession c uid of
        None \<Rightarrow> (c, [SessionExpired])
      | Some s \<Rightarrow>
         if currentQuestion s < length (questions s)
         then (c, [QuestionSent (questions s ! currentQuestion s)])
         else completeTest e c now uid)"

definition handleStartTest :: "env \<Rightarrow> cache \<Rightarrow> time \<Rightarrow> int \<Rightarrow> random \<Rightarrow> (cache \<times> out list) \<times> random" where
  "handleStartTest e c now uid rnd =
     (case getSession c uid of
        None \<Rightarrow> ((c, [SessionExpired]), rnd)
      | Some s \<Rightarrow>
         (case selectQuestionsForTest (e_questionService e)
                 \<lparr>tc_totalQuestions = Some (case e_totalQuestions e of None \<Rightarrow> 20
                                               | Some n \<Rightarrow> if n = 0 then 20 else n),
                  tc_questionsPerLevel = e_questionsPerLevel e\<rparr> rnd of
            (qs, rnd') \<Rightarrow>
              (let c1 = fst (setQuestions c uid qs);
                   c2 = fst (updateSession c1 uid (\<lambda>s. s\<lparr>state := ''in_progress''\<rparr>));
                   (c3, outs) = sendQuestion e c2 now uid
               in ((c3, Instructions # outs), rnd'))))"

text \<open>
  \<open>handleAnswer\<close>: an exception of \<open>checkAnswer\<close> leaves the handler before anything is
  recorded; \<open>handleCallback\<close> catches it and sends the error message.
\<close>

definition handleAnswer :: "env \<Rightarrow> cache \<Rightarrow> time \<Rightarrow> int \<Rightarrow> int \<Rightarrow> int \<Rightarrow> cache \<times> (error + out list)" where
  "handleAnswer e c now uid questionId selectedOption =
     (case getSession c uid of
        None \<Rightarrow> (c, Inr [SessionExpired])
      | Some s \<Rightarrow>
         if state s \<noteq> ''in_progress'' then (c, Inr [NoActiveTest])
         else if \<not> currentQuestion s < length (questions s) then (c, Inr [InvalidAnswer])
         else if q_id (questions s ! currentQuestion s) \<noteq> Some questionId then (c, Inr [InvalidAnswer])
         else
          (case checkAnswer (e_questionService e) questionId selectedOption of
             Inl err \<Rightarrow> (c, Inl err)
           | Inr result \<Rightarrow>
              (let c1 = fst (recordAnswer c now uid
                               \<lparr>a_questionId = questionId, a_selectedOption = selectedOption,
                                a_isCorrect = cr_isCorrect result, a_weight = Some (cr_weight result)\<rparr>);
                   feedback = Feedback (cr_isCorrect result)
                                (if cr_isCorrect result then None else cr_correctOption result);
                   (c2, outs) = (if isTestComplete c1 uid then completeTest e c1 now uid
                                 else sendQuestion e c1 now uid)
               in (c2, Inr (feedback # outs)))))"

datatype callback = StartTest | ShowInstructions | Answer int int | Other

definition handleCallback :: "env \<Rightarrow> cache \<Rightarrow> time \<Rightarrow> int \<Rightarrow> callback \<Rightarrow> random \<Rightarrow> (cache \<times> out list) \<times> random" where
  "handleCallback e c now uid d rnd =
     (case d of
        StartTest \<Rightarrow> handleStartTest e c now uid rnd
      | ShowInstructions \<Rightarrow> ((c, [Instructions]), rnd)
      | Answer questionId selectedOption \<Rightarrow>
          (case handleAnswer e c now uid questionId selectedOption of
             (c', Inl err) \<Rightarrow> ((c', [ErrorOccurred]), rnd)
           | (c', Inr outs) \<Rightarrow> ((c', outs), rnd))
      | Other \<Rightarrow> ((c, []), rnd))"


section \<open>Question selection on a heap of arrays\<close>

text \<open>
  \<open>shuffleArray\<close> swaps cells of an array in place, and the selection pushes to an
  array. To tell which arrays these writes reach, the functions of the selection are
  given a second time with arrays as references: the heap lists the arrays allocated so
  far, the address of an array is its position in the heap, a new array goes to the end
  (\<open>alloc\<close>). \<open>filter\<close>, \<open>slice\<close> and the spread \<open>[...array]\<close> allocate; the swap and
  \<open>push\<close> write to the array at an address. \<open>this_questions\<close> is the address of the
  array \<open>this.questions\<close> of the service.
\<close>

definition alloc :: "'a list list \<Rightarrow> 'a list \<Rightarrow> 'a list list \<times> nat" where
  "alloc h xs = (h @ [xs], length h)"

fun shuffle_loop_at :: "nat \<Rightarrow> nat \<Rightarrow> 'a list list \<Rightarrow> random \<Rightarrow> 'a list list \<times> random" where
  "shuffle_loop_at 0 shuffled h rnd = (h, rnd)"
| "shuffle_loop_at (Suc i) shuffled h rnd =
     (let j = rnd 0 (Suc i + 1);
          cells = h ! shuffled
      in shuffle_loop_at i shuffled (h[shuffled := cells[Suc i := cells ! j, j := cells ! Suc i]])
           (\<lambda>k. rnd (Suc k)))"

definition shuffleArray_at :: "nat \<Rightarrow> 'a list list \<Rightarrow> random \<Rightarrow> ('a list list \<times> nat) \<times> random" where
  "shuffleArray_at array h rnd =
     (case alloc h (h ! array) of
        (h1, shuffled) \<Rightarrow>
          (case shuffle_loop_at (length (h1 ! shuffled) - 1) shuffled h1 rnd of
             (h2, rnd') \<Rightarrow> ((h2, shuffled), rnd')))"

definition getQuestionsByLevel_at :: "nat \<Rightarrow> question list list \<Rightarrow> string \<Rightarrow> question list list \<times> nat" where
  "getQuestionsByLevel_at this_questions h lvl =
     alloc h (filter (\<lambda>q. q_level q = Some lvl) (h ! this_questions))"

fun select_levels_at ::
  "nat \<Rightarrow> (string \<times> int) list \<Rightarrow> nat \<Rightarrow> question list list \<Rightarrow> random \<Rightarrow> question list list \<times> random" where
  "select_levels_at this_questions [] selectedQuestions h rnd = (h, rnd)"
| "select_levels_at this_questions ((lvl, n) # rest) selectedQuestions h rnd =
     (case getQuestionsByLevel_at this_questions h lvl of
        (h1, levelQuestions) \<Rightarrow>
          (case shuffleArray_at levelQuestions h1 rnd of
             ((h2, shuffled), rnd') \<Rightarrow>
               (case alloc h2 (slice0 (h2 ! shuffled) n) of
                  (h3, selected) \<Rightarrow>
                    select_levels_at this_questions rest selectedQuestions
                      (h3[selectedQuestions := h3 ! selectedQuestions @ h3 ! selected]) rnd')))"

definition selectQuestionsForTest_at ::
  "nat \<Rightarrow> testConfig \<Rightarrow> question list list \<Rightarrow> random \<Rightarrow> (question list list \<times> nat) \<times> random" where
  "selectQuestionsForTest_at this_questions cfg h rnd =
     (case alloc h [] of
        (h0, selectedQuestions) \<Rightarrow>
          (case select_levels_at this_questions (level_entries cfg) selectedQuestions h0 rnd of
             (h1, rnd') \<Rightarrow> shuffleArray_at selectedQuestions h1 rnd'))"


section \<open>The assessment on a store of objects (assessmentService.js)\<close>

text \<open>
  \<open>calculateAssessment\<close> is handed references to the session and to the array of
  questions, creates the objects \<open>categoryStats\<close> and \<open>levelStats\<close>, increments the
  counters these hold, and reads the clock. To tell which objects its writes reach and
  what a second call finds, the function is given a second time on a store: the
  store lists the objects allocated so far, the address of an object is its position, a
  new object goes to the end. An object is a session, an array of questions, a pair of
  counters \<open>{ correct, total }\<close>, or a table whose members are references to pairs of
  counters.

  A table inherits from \<open>Object.prototype\<close>: \<open>table[key]\<close> for a key that is no
  member of the table but a name of a member of \<open>Object.prototype\<close> reads that member,
  a function or, for \<open>__proto__\<close>, the prototype itself, all of which count as true;
  \<open>table[key].total++\<close> then sets the property \<open>total\<close> of that built-in object. The
  store records these writes as pairs of the key and the property written.
\<close>

datatype cell =
    SessionObj session
  | QuestionsArr "question list"
  | StatObj stat
  | TableObj "(string \<times> nat) list"

record store =
  objects :: "cell list"
  prototype_writes :: "(string \<times> string) list"

text \<open>The clock is the sequence of the readings that \<open>new Date()\<close> is going to return.\<close>

type_synonym clock = "nat \<Rightarrow> time"

definition new_object :: "store \<Rightarrow> cell \<Rightarrow> store \<times> nat" where
  "new_object h c = (h\<lparr>objects := objects h @ [c]\<rparr>, length (objects h))"

definition object_at :: "store \<Rightarrow> nat \<Rightarrow> cell option" where
  "object_at h a = (if a < length (objects h) then Some (objects h ! a) else None)"

text \<open>
  The object literal \<open>{ k1: { correct: 0, total: 0 }, k2: { correct: 0, total: 0 }, ... }\<close>:
  the pairs of counters are created in the order of the keys, then the table.
\<close>

fun new_counters :: "store \<Rightarrow> string list \<Rightarrow> store \<times> (string \<times> nat) list" where
  "new_counters h [] = (h, [])"
| "new_counters h (k # ks) =
     (case new_object h (StatObj \<lparr>st_correct = 0, st_total = 0\<rparr>) of
        (h1, a) \<Rightarrow> (case new_counters h1 ks of (h2, ms) \<Rightarrow> (h2, (k, a) # ms)))"

definition new_stats :: "store \<Rightarrow> string list \<Rightarrow> store \<times> nat" where
  "new_stats h ks = (case new_counters h ks of (h1, ms) \<Rightarrow> new_object h1 (TableObj ms))"

text \<open>The names of the members of \<open>Object.prototype\<close>.\<close>

definition inherited :: "string list" where
  "inherited = [''constructor'', ''__defineGetter__'', ''__defineSetter__'', ''hasOwnProperty'',
                ''__lookupGetter__'', ''__lookupSetter__'', ''isPrototypeOf'',
                ''propertyIsEnumerable'', ''toString'', ''valueOf'', ''__proto__'',
                ''toLocaleString'']"

text \<open>
  \<open>if (table[key]) { table[key].total++; if (answer.isCorrect) table[key].correct++ }\<close>
  for the table at the address \<open>table\<close>. An absent key reads the member \<open>undefined\<close>,
  which no table and no prototype has.
\<close>

definition bump_at :: "store \<Rightarrow> nat \<Rightarrow> string option \<Rightarrow> bool \<Rightarrow> store" where
  "bump_at h table key ok =
     (case key of
        None \<Rightarrow> h
      | Some k \<Rightarrow>
         (case object_at h table of
            Some (TableObj ms) \<Rightarrow>
              (case map_of ms k of
                 Some a \<Rightarrow>
                   (case object_at h a of
                      Some (StatObj e) \<Rightarrow>
                        h\<lparr>objects := (objects h)[a := StatObj
                             \<lparr>st_correct = (if ok then st_correct e + 1 else st_correct e),
                              st_total = st_total e + 1\<rparr>]\<rparr>
                    | _ \<Rightarrow> h)
               | None \<Rightarrow>
                   if k \<in> set inherited
                   then h\<lparr>prototype_writes := prototype_writes h
                            @ (if ok then [(k, ''total''), (k, ''correct'')] else [(k, ''total'')])\<rparr>
                   else h)
          | _ \<Rightarrow> h))"

text \<open>
  One pass of \<open>for (const answer of answers)\<close> with the array of questions as it is
  in the store at that moment (a \<open>find\<close> on something that is no array is a
  TypeError), and the loop. The state of the loop is the store and the variables
  \<open>totalWeight\<close> and \<open>earnedWeight\<close>.
\<close>

definition tally_answer_at ::
  "config \<Rightarrow> nat \<Rightarrow> nat \<Rightarrow> nat \<Rightarrow> store \<times> int \<times> int \<Rightarrow> answerRecord \<Rightarrow> error + store \<times> int \<times> int" where
  "tally_answer_at cfg questions_ref categoryStats_ref levelStats_ref st a =
     (case st of
        (h, totalW, earnedW) \<Rightarrow>
          (case object_at h questions_ref of
             Some (QuestionsArr qs) \<Rightarrow>
               (case find (\<lambda>q. q_id q = Some (r_questionId a)) qs of
                  None \<Rightarrow> Inr (h, totalW, earnedW)
                | Some question \<Rightarrow>
                   (let weight = resolve_weight cfg question;
                        h1 = bump_at h categoryStats_ref (q_category question) (r_isCorrect a);
                        h2 = bump_at h1 levelStats_ref (q_level question) (r_isCorrect a)
                    in Inr (h2, totalW + weight, if r_isCorrect a then earnedW + weight else earnedW)))
           | _ \<Rightarrow> Inl TypeError))"

fun tally_answers_at ::
  "config \<Rightarrow> nat \<Rightarrow> nat \<Rightarrow> nat \<Rightarrow> store \<times> int \<times> int \<Rightarrow> answerRecord list \<Rightarrow> error + store \<times> int \<times> int" where
  "tally_answers_at cfg questions_ref categoryStats_ref levelStats_ref st [] = Inr st"
| "tally_answers_at cfg questions_ref categoryStats_ref levelStats_ref st (a # as) =
     (case tally_answer_at cfg questions_ref categoryStats_ref levelStats_ref st a of
        Inl e \<Rightarrow> Inl e
      | Inr st' \<Rightarrow> tally_answers_at cfg questions_ref categoryStats_ref levelStats_ref st' as)"

text \<open>
  \<open>for (const [key, stats] of Object.entries(table))\<close> filling a new object with the
  percentage of each pair of counters.
\<close>

definition percentages_at :: "store \<Rightarrow> nat \<Rightarrow> string \<rightharpoonup> int" where
  "percentages_at h table =
     (case object_at h table of
        Some (TableObj ms) \<Rightarrow>
          map_of (map (\<lambda>(k, a). (k, case object_at h a of
                                        Some (StatObj e) \<Rightarrow> stat_percentage e
                                      | _ \<Rightarrow> 0)) ms)
      | _ \<Rightarrow> Map.empty)"

text \<open>
  The object \<open>calculateAssessment\<close> returns: \<open>categoryStats\<close> and \<open>levelStats\<close> are the
  references to the two tables.
\<close>

record assessment_obj =
  o_level :: string
  o_percentageScore :: int
  o_totalQuestions :: nat
  o_correctAnswers :: nat
  o_categoryStats :: nat
  o_categoryPercentages :: "string \<rightharpoonup> int"
  o_levelStats :: nat
  o_levelPercentages :: "string \<rightharpoonup> int"
  o_earnedWeight :: int
  o_totalWeight :: int
  o_recommendation :: string
  o_completedAt :: time

text \<open>
  \<open>calculateAssessment(session, questions)\<close> on the references \<open>session_ref\<close> and
  \<open>questions_ref\<close>, in a store and at a clock: the result, the store and the clock
  after the call. \<open>const { answers } = session\<close> reads the answers once.
\<close>

definition calculateAssessment_at ::
  "config \<Rightarrow> nat \<Rightarrow> nat \<Rightarrow> store \<times> clock \<Rightarrow> error + assessment_obj \<times> store \<times> clock" where
  "calculateAssessment_at cfg session_ref questions_ref world =
     (case world of
        (h, clk) \<Rightarrow>
          (case object_at h session_ref of
             Some (SessionObj s) \<Rightarrow>
               (case new_stats h [''vocabulary'', ''grammar''] of
                  (h1, categoryStats_ref) \<Rightarrow>
                    (case new_stats h1 [''A1'', ''A2'', ''B1'', ''B2''] of
                       (h2, levelStats_ref) \<Rightarrow>
                         (case tally_answers_at cfg questions_ref categoryStats_ref levelStats_ref
                                 (h2, 0, 0) (answers s) of
                            Inl e \<Rightarrow> Inl e
                          | Inr (h3, totalW, earnedW) \<Rightarrow>
                             (let pct = (if totalW > 0 then round_percent earnedW totalW else 0);
                                  lvl = determineLevel cfg pct
                              in Inr (\<lparr>o_level = lvl,
                                       o_percentageScore = pct,
                                       o_totalQuestions = length (answers s),
                                       o_correctAnswers = length (filter r_isCorrect (answers s)),
                                       o_categoryStats = categoryStats_ref,
                                       o_categoryPercentages = percentages_at h3 categoryStats_ref,
                                       o_levelStats = levelStats_ref,
                                       o_levelPercentages = percentages_at h3 levelStats_ref,
                                       o_earnedWeight = earnedW,
                                       o_totalWeight = totalW,
                                       o_recommendation = getRecommendation cfg lvl,
                                       o_completedAt = clk 0\<rparr>,
                                      h3, \<lambda>n. clk (Suc n))))))
           | _ \<Rightarrow> Inl TypeError))"

text \<open>
  What a reader of the result finds in a store: the tables with their pairs of
  counters read out.
\<close>

definition stats_at :: "store \<Rightarrow> nat \<Rightarrow> stats" where
  "stats_at h table =
     (case object_at h table of
        Some (TableObj ms) \<Rightarrow>
          (\<lambda>k. case map_of ms k of
                 None \<Rightarrow> None
               | Some a \<Rightarrow> (case object_at h a of Some (StatObj e) \<Rightarrow> Some e | _ \<Rightarrow> None))
      | _ \<Rightarrow> Map.empty)"

definition assessment_in :: "store \<Rightarrow> assessment_obj \<Rightarrow> assessment" where
  "assessment_in h r =
     \<lparr>level = o_level r,
      percentageScore = o_percentageScore r,
      totalQuestions = o_totalQuestions r,
      correctAnswers = o_correctAnswers r,
      categoryStats = stats_at h (o_categoryStats r),
      categoryPercentages = o_categoryPercentages r,
      levelStats = stats_at h (o_levelStats r),
      levelPercentages = o_levelPercentages r,
      earnedWeight = o_earnedWeight r,
      totalWeight = o_totalWeight r,
      recommendation = o_recommendation r,
      completedAt = o_completedAt r\<rparr>"

text \<open>Two calls, one after the other, on the same references.\<close>

definition calculateAssessment_twice ::
  "config \<Rightarrow> nat \<Rightarrow> nat \<Rightarrow> store \<times> clock
     \<Rightarrow> error + (assessment_obj \<times> store) \<times> (assessment_obj \<times> store)" where
  "calculateAssessment_twice cfg session_ref questions_ref world =
     (case calculateAssessment_at cfg session_ref questions_ref world of
        Inl e \<Rightarrow> Inl e
      | Inr (r1, h1, clk1) \<Rightarrow>
         (case calculateAssessment_at cfg session_ref questions_ref (h1, clk1) of
            Inl e \<Rightarrow> Inl e
          | Inr (r2, h2, clk2) \<Rightarrow> Inr ((r1, h1), (r2, h2))))"


section \<open>Example data\<close>

text \<open>The question of the README, at level B2 and without a \<open>weight\<close>.\<close>

definition q_demo :: question where
  "q_demo = \<lparr>q_id = Some 1, q_text = Some ''She ______ to school every day.'',
             q_options = Some [''go'', ''goes'', ''going'', ''went''], q_correct = Some 1,
             q_level = Some ''B2'', q_category = Some ''grammar'', q_weight = None\<rparr>"

text \<open>A session in progress on that question, and the session after its answer.\<close>

definition s_demo :: session where
  "s_demo = \<lparr>userId = 7, username = None, startTime = 0, answers = [], currentQuestion = 0,
             questions = [q_demo], score = 0, isComplete = False, state = ''in_progress'',
             endTime = None\<rparr>"

definition s_done :: session where
  "s_done = s_demo\<lparr>answers := [\<lparr>r_questionId = 1, r_selectedOption = 1, r_isCorrect = True,
                                 r_timestamp = 5\<rparr>],
                   currentQuestion := 1, score := 1\<rparr>"


section \<open>The validation rules as the specification words them\<close>

text \<open>
  The five rules of the specification for one question: the required fields are
  present, the options are an array of exactly 4, the correct index is within 0 to 3
  (one of the numbers 0, 1, 2, 3), the level is one of A1, A2, B1, B2, the category is
  vocabulary or grammar.
\<close>

definition rule_required_fields :: "json \<Rightarrow> bool" where
  "rule_required_fields q =
     (get_member q ''id'' \<noteq> None \<and> get_member q ''text'' \<noteq> None
      \<and> get_member q ''options'' \<noteq> None \<and> get_member q ''correct'' \<noteq> None
      \<and> get_member q ''level'' \<noteq> None \<and> get_member q ''category'' \<noteq> None)"

definition rule_four_options :: "json \<Rightarrow> bool" where
  "rule_four_options q =
     (case get_member q ''options'' of Some (JArr os) \<Rightarrow> length os = 4 | _ \<Rightarrow> False)"

definition rule_correct_index :: "json \<Rightarrow> bool" where
  "rule_correct_index q =
     (case get_member q ''correct'' of
        Some (JNum (Finite r)) \<Rightarrow> r = 0 \<or> r = 1 \<or> r = 2 \<or> r = 3
      | _ \<Rightarrow> False)"

definition rule_level :: "json \<Rightarrow> bool" where
  "rule_level q =
     (get_member q ''level'' = Some (JStr ''A1'') \<or> get_member q ''level'' = Some (JStr ''A2'')
      \<or> get_member q ''level'' = Some (JStr ''B1'') \<or> get_member q ''level'' = Some (JStr ''B2''))"

definition rule_category :: "json \<Rightarrow> bool" where
  "rule_category q =
     (get_member q ''category'' = Some (JStr ''vocabulary'')
      \<or> get_member q ''category'' = Some (JStr ''grammar''))"

definition spec_valid_question :: "json \<Rightarrow> bool" where
  "spec_valid_question q =
     (rule_required_fields q \<and> rule_four_options q \<and> rule_correct_index q \<and> rule_level q
      \<and> rule_category q)"

text \<open>
  The \<open>correct\<close> field of a question is, where it is present, a number with an integral
  value, as the README documents it.
\<close>

definition integral_index :: "json \<Rightarrow> bool" where
  "integral_index q =
     (case get_member q ''correct'' of
        None \<Rightarrow> True
      | Some (JNum (Finite r)) \<Rightarrow> of_int \<lfloor>r\<rfloor> = r
      | Some v \<Rightarrow> False)"

text \<open>The question id an error message prints (\<open>None\<close>: it prints none).\<close>

fun named_id :: "error \<Rightarrow> json option" where
  "named_id (MissingField i f) = i"
| "named_id (BadOptions i) = i"
| "named_id (BadCorrect i) = i"
| "named_id (BadLevel i l) = i"
| "named_id (BadCategory i c) = i"
| "named_id (LoadFailed err) = named_id err"
| "named_id ReadFailed = None"
| "named_id (NotFound i) = None"
| "named_id TypeError = None"

text \<open>A question with a level outside the four.\<close>

definition q_bad :: question where
  "q_bad = q_demo\<lparr>q_id := Some 2, q_level := Some ''C1''\<rparr>"

text \<open>A question with the id 0 and no text.\<close>

definition q_zero :: question where
  "q_zero = q_demo\<lparr>q_id := Some 0, q_text := None\<rparr>"

text \<open>
  The README's question with \<open>"correct": null\<close>, and the same with \<open>"correct": 1.5\<close>.
\<close>

definition q_null :: json where
  "q_null = JObj [(''id'', json_int 1), (''text'', JStr ''She ______ to school every day.''),
                  (''options'', JArr [JStr ''go'', JStr ''goes'', JStr ''going'', JStr ''went'']),
                  (''correct'', JNull), (''level'', JStr ''B2''), (''category'', JStr ''grammar'')]"

definition q_half :: json where
  "q_half = JObj [(''id'', json_int 1), (''text'', JStr ''She ______ to school every day.''),
                  (''options'', JArr [JStr ''go'', JStr ''goes'', JStr ''going'', JStr ''went'']),
                  (''correct'', JNum (Finite (3 / 2))), (''level'', JStr ''B2''),
                  (''category'', JStr ''grammar'')]"


text \<open>
  A bank in which two questions share the id 1 (it passes validation), the handler
  environment on it, and a session in progress on its three questions.
\<close>

definition q_twin :: question where
  "q_twin = q_demo\<lparr>q_text := Some ''He ______ to work every day.''\<rparr>"

definition q_third :: question where
  "q_third = q_demo\<lparr>q_id := Some 3, q_level := Some ''A1''\<rparr>"

definition env_demo :: env where
  "env_demo = \<lparr>e_questionService = \<lparr>svc_questions = [q_demo, q_twin, q_third]\<rparr>,
                e_assessmentConfig = getDefaultConfig, e_totalQuestions = None,
                e_questionsPerLevel = None, e_monitoring = False\<rparr>"

definition s_twins :: session where
  "s_twins = s_demo\<lparr>questions := [q_demo, q_twin, q_third]\<rparr>"

definition s_distinct :: session where
  "s_distinct = s_demo\<lparr>questions := [q_demo, q_third]\<rparr>"

text \<open>
  The session \<open>s\<close> with one more answer record, the cursor advanced by one, and the
  weight of the checked answer added to the score if the answer is correct.
\<close>

definition with_answer :: "session \<Rightarrow> int \<Rightarrow> int \<Rightarrow> checkResult \<Rightarrow> time \<Rightarrow> session" where
  "with_answer s qid sel res now =
     s\<lparr>answers := answers s @ [\<lparr>r_questionId = qid, r_selectedOption = sel,
                                 r_isCorrect = cr_isCorrect res, r_timestamp = now\<rparr>],
       currentQuestion := Suc (currentQuestion s),
       score := score s + (if cr_isCorrect res then cr_weight res else 0)\<rparr>"


section \<open>What the selection loop pushes\<close>

text \<open>
  The questions pushed for one entry \<open>(level, count)\<close>: some of the questions of the
  level, none more often than the bank has it, and \<open>count\<close> of them if the level has
  that many.
\<close>

definition pick_ok :: "questionService \<Rightarrow> string \<times> int \<Rightarrow> question list \<Rightarrow> bool" where
  "pick_ok svc en p =
     (mset p \<subseteq># mset (getQuestionsByLevel svc (fst en))
      \<and> (0 \<le> snd en \<and> nat (snd en) \<le> length (getQuestionsByLevel svc (fst en))
           \<longrightarrow> length p = nat (snd en)))"

text \<open>
  Two banks of five questions in each level, both passing validation: in \<open>bank_demo\<close>
  the ids are 1 to 20, in \<open>bank_dup\<close> every level uses the ids 1 to 5 again.
\<close>

definition q_of :: "int \<Rightarrow> string \<Rightarrow> question" where
  "q_of i l = \<lparr>q_id = Some i, q_text = Some ''Choose.'', q_options = Some [''a'', ''b'', ''c'', ''d''],
              q_correct = Some 0, q_level = Some l, q_category = Some ''vocabulary'',
              q_weight = None\<rparr>"

definition level_block :: "int \<Rightarrow> string \<Rightarrow> question list" where
  "level_block b l = [q_of (b + 1) l, q_of (b + 2) l, q_of (b + 3) l, q_of (b + 4) l, q_of (b + 5) l]"

definition bank_demo :: "question list" where
  "bank_demo = level_block 0 ''A1'' @ level_block 5 ''A2'' @ level_block 10 ''B1'' @ level_block 15 ''B2''"

definition bank_dup :: "question list" where
  "bank_dup = level_block 0 ''A1'' @ level_block 0 ''A2'' @ level_block 0 ''B1'' @ level_block 0 ''B2''"

definition cfg_twenty :: testConfig where
  "cfg_twenty = \<lparr>tc_totalQuestions = Some 20, tc_questionsPerLevel = None\<rparr>"


section \<open>The percentage as the specification words it\<close>

text \<open>
  \<open>round(100 * earnedWeight / totalWeight)\<close> on the exact quotient of the integers, a
  tie going up as in \<open>Math.round\<close>.
\<close>

definition exact_percent :: "int \<Rightarrow> int \<Rightarrow> int" where
  "exact_percent e t = Math_round (of_int (100 * e) / of_int t)"

text \<open>
  The weight an answer counts with: the resolved weight of the first question with its
  id, and nothing if the questions hold none.
\<close>

definition matched_weight :: "config \<Rightarrow> question list \<Rightarrow> answerRecord \<Rightarrow> int" where
  "matched_weight cfg qs a =
     (case find (\<lambda>q. q_id q = Some (r_questionId a)) qs of
        None \<Rightarrow> 0
      | Some q \<Rightarrow> resolve_weight cfg q)"

text \<open>
  Four questions, one of each level, without explicit weights, and a completed session
  that answered the second of them wrongly; two questions of weights 23 and 17, and a
  completed session that answered the first correctly.
\<close>

definition qs_levels :: "question list" where
  "qs_levels = [q_of 1 ''A1'', q_of 2 ''A2'', q_of 3 ''B1'', q_of 4 ''B2'']"

definition s_levels :: session where
  "s_levels = s_demo\<lparr>questions := qs_levels, currentQuestion := 4, state := ''completed'',
       answers := [\<lparr>r_questionId = 1, r_selectedOption = 0, r_isCorrect = True, r_timestamp = 1\<rparr>,
                   \<lparr>r_questionId = 2, r_selectedOption = 1, r_isCorrect = False, r_timestamp = 2\<rparr>,
                   \<lparr>r_questionId = 3, r_selectedOption = 0, r_isCorrect = True, r_timestamp = 3\<rparr>,
                   \<lparr>r_questionId = 4, r_selectedOption = 0, r_isCorrect = True, r_timestamp = 4\<rparr>]\<rparr>"

definition qs_tie :: "question list" where
  "qs_tie = [(q_of 1 ''B1'')\<lparr>q_weight := Some 23\<rparr>, (q_of 2 ''B2'')\<lparr>q_weight := Some 17\<rparr>]"

definition s_tie :: session where
  "s_tie = s_demo\<lparr>questions := qs_tie, currentQuestion := 2, state := ''completed'',
       answers := [\<lparr>r_questionId = 1, r_selectedOption = 0, r_isCorrect = True, r_timestamp = 1\<rparr>,
                   \<lparr>r_questionId = 2, r_selectedOption = 1, r_isCorrect = False, r_timestamp = 2\<rparr>]\<rparr>"

text \<open>
  A question of weight -3, which no check of the bank looks at, and a completed session
  that answered it correctly.
\<close>

definition qs_negative :: "question list" where
  "qs_negative = [(q_of 1 ''B1'')\<lparr>q_weight := Some (- 3)\<rparr>]"

definition s_negative :: session where
  "s_negative = s_demo\<lparr>questions := qs_negative, currentQuestion := 1, state := ''completed'',
       answers := [\<lparr>r_questionId = 1, r_selectedOption = 0, r_isCorrect = True, r_timestamp = 1\<rparr>]\<rparr>"


section \<open>The objects a call of the assessment creates\<close>

text \<open>
  The objects a call creates, as they stand after the loop: at the position \<open>n\<close> the
  two pairs of counters of the categories and their table, then the four pairs of the
  levels and their table.
\<close>

definition created :: "nat \<Rightarrow> stat \<Rightarrow> stat \<Rightarrow> stat \<Rightarrow> stat \<Rightarrow> stat \<Rightarrow> stat \<Rightarrow> cell list" where
  "created n v g a1 a2 b1 b2 =
     [StatObj v, StatObj g,
      TableObj [(''vocabulary'', n), (''grammar'', n + 1)],
      StatObj a1, StatObj a2, StatObj b1, StatObj b2,
      TableObj [(''A1'', n + 3), (''A2'', n + 4), (''B1'', n + 5), (''B2'', n + 6)]]"

text \<open>
  No category and no level of the question is the name of a member of
  \<open>Object.prototype\<close>; this holds for every question that passes validation.
\<close>

definition plain_keys :: "question \<Rightarrow> bool" where
  "plain_keys q =
     ((case q_category q of None \<Rightarrow> True | Some k \<Rightarrow> k \<notin> set inherited)
      \<and> (case q_level q of None \<Rightarrow> True | Some k \<Rightarrow> k \<notin> set inherited))"

text \<open>The store that holds the session \<open>s_done\<close> and its question, and a clock.\<close>

definition store_demo :: store where
  "store_demo = \<lparr>objects = [SessionObj s_done, QuestionsArr [q_demo]], prototype_writes = []\<rparr>"

definition clock_demo :: clock where
  "clock_demo n = 10 + n"

text \<open>The tables of counters as values, and the two clock readings of two calls.\<close>

definition category_table :: "stat \<Rightarrow> stat \<Rightarrow> stats" where
  "category_table v g = [''vocabulary'' \<mapsto> v, ''grammar'' \<mapsto> g]"

definition level_table :: "stat \<Rightarrow> stat \<Rightarrow> stat \<Rightarrow> stat \<Rightarrow> stats" where
  "level_table a1 a2 b1 b2 = [''A1'' \<mapsto> a1, ''A2'' \<mapsto> a2, ''B1'' \<mapsto> b1, ''B2'' \<mapsto> b2]"

definition completedAt_twice ::
  "config \<Rightarrow> nat \<Rightarrow> nat \<Rightarrow> store \<times> clock \<Rightarrow> error + time \<times> time" where
  "completedAt_twice cfg session_ref questions_ref world =
     (case calculateAssessment_twice cfg session_ref questions_ref world of
        Inl e \<Rightarrow> Inl e
      | Inr ((r1, h1), (r2, h2)) \<Rightarrow> Inr (o_completedAt r1, o_completedAt r2))"


section \<open>Validation of JSON values\<close>

lemma map_of_json_member:
  "map_of (json_member k v @ ms) name = (if name = k \<and> v \<noteq> None then v else map_of ms name)"
  by (cases v) (simp_all add: json_member_def)

lemma get_member_question_json:
  "get_member (question_json q) ''id'' = map_option json_int (q_id q)"
  "get_member (question_json q) ''text'' = map_option JStr (q_text q)"
  "get_member (question_json q) ''options'' = map_option (\<lambda>os. JArr (map JStr os)) (q_options q)"
  "get_member (question_json q) ''correct'' = map_option json_int (q_correct q)"
  "get_member (question_json q) ''level'' = map_option JStr (q_level q)"
  "get_member (question_json q) ''category'' = map_option JStr (q_category q)"
  by (simp_all add: get_member_def question_json_def map_of_json_member json_member_def
      split: option.splits)

lemma ToNumber_number: "ToNumber coerce (Some (JNum n)) = Inr n"
  by (simp add: ToNumber_def)

lemma correct_out_of_range_number:
  "get_member q ''correct'' = Some (JNum n) \<Longrightarrow>
     correct_out_of_range coerce q = Inr (number_less n (Finite 0) \<or> number_less (Finite 3) n)"
  by (cases "number_less n (Finite 0)")
    (simp_all add: correct_out_of_range_def less_than_def greater_than_def ToNumber_def)

lemma find_requiredFields:
  "find (\<lambda>field. get_member q field = None) requiredFields = None \<longleftrightarrow> rule_required_fields q"
  by (simp add: requiredFields_def rule_required_fields_def)

lemma options_not_four_rule: "options_not_four q \<longleftrightarrow> \<not> rule_four_options q"
  by (simp add: options_not_four_def rule_four_options_def split: option.splits json.splits)

lemma array_includes_levels: "array_includes validLevels (get_member q ''level'') \<longleftrightarrow> rule_level q"
  by (auto simp: array_includes_def validLevels_def rule_level_def split: option.splits json.splits)

lemma array_includes_categories:
  "array_includes validCategories (get_member q ''category'') \<longleftrightarrow> rule_category q"
  by (auto simp: array_includes_def validCategories_def rule_category_def split: option.splits json.splits)

lemma integral_between:
  fixes r :: rat
  assumes "of_int \<lfloor>r\<rfloor> = r" "\<not> r < 0" "\<not> 3 < r"
  shows "r = 0 \<or> r = 1 \<or> r = 2 \<or> r = 3"
proof -
  have "0 \<le> \<lfloor>r\<rfloor>" "\<lfloor>r\<rfloor> \<le> 3"
    using assms by (simp_all add: le_floor_iff floor_le_iff) 
  then have "\<lfloor>r\<rfloor> = 0 \<or> \<lfloor>r\<rfloor> = 1 \<or> \<lfloor>r\<rfloor> = 2 \<or> \<lfloor>r\<rfloor> = 3"
    by arith
  with assms(1) show ?thesis
    by (metis of_int_0 of_int_1 of_int_numeral)
qed

lemma correct_in_range_rule:
  assumes "integral_index q" "get_member q ''correct'' \<noteq> None"
  shows "correct_out_of_range coerce q = Inr (\<not> rule_correct_index q)"
proof -
  from assms obtain r where c: "get_member q ''correct'' = Some (JNum (Finite r))" and i: "of_int \<lfloor>r\<rfloor> = r"
    by (auto simp: integral_index_def split: option.splits json.splits number.splits)
  have "(r < 0 \<or> 3 < r) \<longleftrightarrow> \<not> (r = 0 \<or> r = 1 \<or> r = 2 \<or> r = 3)"
    using integral_between [OF i] by auto
  with c show ?thesis
    by (simp add: correct_out_of_range_number rule_correct_index_def)
qed

lemma validateQuestion_valid:
  assumes "spec_valid_question q"
  shows "validateQuestion coerce q = Inr ()"
proof -
  from assms have r: "rule_required_fields q" "rule_four_options q" "rule_correct_index q"
    "rule_level q" "rule_category q"
    by (simp_all add: spec_valid_question_def)
  from r(1) have n: "q \<noteq> JNull"
    by (auto simp: rule_required_fields_def get_member_def)
  from r(3) obtain x where c: "get_member q ''correct'' = Some (JNum (Finite x))"
    and x: "x = 0 \<or> x = 1 \<or> x = 2 \<or> x = 3"
    by (auto simp: rule_correct_index_def split: option.splits json.splits number.splits)
  from x have "correct_out_of_range coerce q = Inr False"
    by (auto simp: correct_out_of_range_number [OF c])
  moreover from r(1) have "find (\<lambda>field. get_member q field = None) requiredFields = None"
    by (simp add: find_requiredFields)
  ultimately show ?thesis
    using r n by (simp add: validateQuestion_def options_not_four_rule
        array_includes_levels array_includes_categories)
qed

lemma validateQuestion_invalid:
  assumes "integral_index q" "\<not> spec_valid_question q"
  shows "\<exists>err. validateQuestion coerce q = Inl err
      \<and> (\<forall>i. get_member q ''id'' = Some i \<and> truthy i \<longrightarrow> named_id err = Some i)"
proof (cases "q = JNull")
  case True
  then show ?thesis by (simp add: validateQuestion_def get_member_def)
next
  case n: False
  show ?thesis
  proof (cases "rule_required_fields q")
    case False
    then obtain f where "find (\<lambda>field. get_member q field = None) requiredFields = Some f"
      using find_requiredFields [of q] by (cases "find (\<lambda>field. get_member q field = None) requiredFields") auto
    with n show ?thesis
      by (auto simp: validateQuestion_def id_or_unknown_def)
  next
    case True
    then have f: "find (\<lambda>field. get_member q field = None) requiredFields = None"
      by (simp add: find_requiredFields)
    from True have c: "get_member q ''correct'' \<noteq> None"
      by (simp add: rule_required_fields_def)
    note k = correct_in_range_rule [OF assms(1) c, of coerce]
    from assms(2) True have "\<not> rule_four_options q \<or> \<not> rule_correct_index q \<or> \<not> rule_level q \<or> \<not> rule_category q"
      by (simp add: spec_valid_question_def)
    with n f k show ?thesis
      by (cases "rule_correct_index q")
        (auto simp: validateQuestion_def options_not_four_rule array_includes_levels array_includes_categories)
  qed
qed

lemma validateQuestions_loop_find:
  "\<forall>q \<in> set qs. integral_index q \<Longrightarrow>
   validateQuestions_loop coerce qs =
     (case find (\<lambda>q. \<not> spec_valid_question q) qs of None \<Rightarrow> Inr () | Some q \<Rightarrow> validateQuestion coerce q)"
proof (induction qs)
  case Nil
  show ?case by simp
next
  case (Cons q qs)
  show ?case
  proof (cases "spec_valid_question q")
    case True
    then have "validateQuestion coerce q = Inr ()" by (rule validateQuestion_valid)
    with True Cons show ?thesis by simp
  next
    case False
    with Cons.prems obtain err where "validateQuestion coerce q = Inl err"
      using validateQuestion_invalid [of q coerce] by auto
    with False show ?thesis by simp
  qed
qed

lemma validateQuestions_loop_valid:
  "\<forall>q \<in> set qs. spec_valid_question q \<Longrightarrow> validateQuestions_loop coerce qs = Inr ()"
  by (induction qs) (simp_all add: validateQuestion_valid)

lemma validateQuestions_loop_ok:
  assumes "\<forall>q \<in> set qs. integral_index q"
  shows "validateQuestions_loop coerce qs = Inr () \<longleftrightarrow> (\<forall>q \<in> set qs. spec_valid_question q)"
proof
  assume a: "validateQuestions_loop coerce qs = Inr ()"
  show "\<forall>q \<in> set qs. spec_valid_question q"
  proof (rule ccontr)
    assume "\<not> (\<forall>q \<in> set qs. spec_valid_question q)"
    then obtain q where f: "find (\<lambda>q. \<not> spec_valid_question q) qs = Some q"
      by (cases "find (\<lambda>q. \<not> spec_valid_question q) qs") (auto simp: find_None_iff)
    then have m: "q \<in> set qs" and nv: "\<not> spec_valid_question q"
      by (auto simp: find_Some_iff)
    from m assms have "integral_index q" by simp
    from validateQuestion_invalid [OF this nv, of coerce] obtain err where "validateQuestion coerce q = Inl err"
      by auto
    with f a show False
      by (simp add: validateQuestions_loop_find [OF assms])
  qed
next
  assume "\<forall>q \<in> set qs. spec_valid_question q"
  then show "validateQuestions_loop coerce qs = Inr ()"
    by (rule validateQuestions_loop_valid)
qed

lemma integral_index_question_json: "integral_index (question_json q)"
  by (simp add: integral_index_def get_member_question_json json_int_def split: option.splits)

lemma spec_valid_question_json:
  assumes "spec_valid_question (question_json q)"
  shows "\<exists>os c. q_options q = Some os \<and> length os = 4 \<and> q_correct q = Some c \<and> 0 \<le> c \<and> c \<le> 3"
proof -
  from assms have o: "rule_four_options (question_json q)" and c: "rule_correct_index (question_json q)"
    by (simp_all add: spec_valid_question_def)
  from o obtain os where 1: "q_options q = Some os" "length os = 4"
    by (auto simp: rule_four_options_def get_member_question_json split: option.splits)
  from c obtain i where 2: "q_correct q = Some i" and "(of_int i :: rat) = 0 \<or> (of_int i :: rat) = 1 \<or> (of_int i :: rat) = 2 \<or> (of_int i :: rat) = 3"
    by (auto simp: rule_correct_index_def get_member_question_json json_int_def split: option.splits)
  then have "i = 0 \<or> i = 1 \<or> i = 2 \<or> i = 3"
    by (metis of_int_eq_iff of_int_0 of_int_1 of_int_numeral)
  with 1 2 show ?thesis by auto
qed

lemma validateQuestions_bank:
  assumes "validateQuestions coerce (bank_json qs) = Inr ()" "q \<in> set qs"
  shows "\<exists>os c. q_options q = Some os \<and> length os = 4 \<and> q_correct q = Some c \<and> 0 \<le> c \<and> c \<le> 3"
proof -
  have i: "\<forall>j \<in> set (map question_json qs). integral_index j"
    by (simp add: integral_index_question_json)
  from assms(1) have "validateQuestions_loop coerce (map question_json qs) = Inr ()"
    by (simp add: validateQuestions_def bank_json_def iterate_def)
  with validateQuestions_loop_ok [OF i] assms(2) have "spec_valid_question (question_json q)"
    by simp
  then show ?thesis by (rule spec_valid_question_json)
qed

lemma validateQuestions_valid_bank:
  "\<forall>q \<in> set qs. spec_valid_question (question_json q) \<Longrightarrow>
     validateQuestions coerce (bank_json qs) = Inr ()"
  by (simp add: validateQuestions_def bank_json_def iterate_def validateQuestions_loop_valid)

lemma questions_or_empty_array:
  "get_member parsed ''questions'' = Some (JArr qs) \<Longrightarrow> questions_or_empty parsed = JArr qs"
  by (simp add: questions_or_empty_def)

lemma loadQuestions_array:
  assumes "get_member parsed ''questions'' = Some (JArr qs)"
  shows "loadQuestions coerce this_questions (Parsed parsed) =
           (JArr qs, case validateQuestions_loop coerce qs of Inl e \<Rightarrow> Inl (LoadFailed e) | Inr u \<Rightarrow> Inr ())"
proof -
  from assms have "parsed \<noteq> JNull"
    by (auto simp: get_member_def)
  with assms show ?thesis
    by (simp add: loadQuestions_def questions_or_empty_array validateQuestions_def iterate_def)
qed

lemma get_member_file_json: "get_member (file_json qs) ''questions'' = Some (JArr (map question_json qs))"
  by (simp add: file_json_def bank_json_def get_member_def)

lemma new_QuestionService_valid_bank:
  assumes "\<forall>q \<in> set qs. spec_valid_question (question_json q)"
  shows "new_QuestionService coerce (Parsed (file_json qs)) = Inr (bank_json qs)"
proof -
  from assms have "validateQuestions_loop coerce (map question_json qs) = Inr ()"
    by (simp add: validateQuestions_loop_valid)
  then show ?thesis
    by (simp add: new_QuestionService_def loadQuestions_array [OF get_member_file_json] bank_json_def)
qed

lemma spec_valid_q_demo: "spec_valid_question (question_json q_demo)"
  by (simp add: spec_valid_question_def rule_required_fields_def rule_four_options_def
      rule_correct_index_def rule_level_def rule_category_def get_member_question_json
      json_int_def q_demo_def)

lemma spec_valid_q_of:
  "l \<in> set validLevels \<Longrightarrow> spec_valid_question (question_json (q_of i l))"
  by (auto simp: spec_valid_question_def rule_required_fields_def rule_four_options_def
      rule_correct_index_def rule_level_def rule_category_def get_member_question_json
      json_int_def q_of_def validLevels_def)

section \<open>Level thresholds\<close>

text \<open>
  C4. With the default thresholds \<open>determineLevel\<close> maps a percentage by inclusive
  upper bounds: at most 25 is A1, at most 50 is A2, at most 75 is B1, anything above is
  B2; so 25 is A1, 26 and 50 are A2, 51 and 75 are B1, 76 is B2. \<open>getLevelFromScore\<close>
  of the helpers is the same function.
\<close>

theorem determineLevel_default_thresholds:
  "determineLevel getDefaultConfig p =
     (if p \<le> 25 then ''A1'' else if p \<le> 50 then ''A2'' else if p \<le> 75 then ''B1'' else ''B2'')
   \<and> getLevelFromScore p = determineLevel getDefaultConfig p
   \<and> determineLevel getDefaultConfig 25 = ''A1''
   \<and> determineLevel getDefaultConfig 26 = ''A2''
   \<and> determineLevel getDefaultConfig 50 = ''A2''
   \<and> determineLevel getDefaultConfig 51 = ''B1''
   \<and> determineLevel getDefaultConfig 75 = ''B1''
   \<and> determineLevel getDefaultConfig 76 = ''B2''"
  by (simp add: determineLevel_def getLevelFromScore_def getDefaultConfig_def)

theorem determineLevel_default_thresholds_witness:
  "determineLevel getDefaultConfig 60 = ''B1'' \<and> getLevelFromScore 60 = ''B1''"
  using determineLevel_default_thresholds [of 60] by simp

section \<open>Sessions\<close>

text \<open>
  C10. \<open>isTestComplete\<close> is false for a user without a session and true for a session
  whose list of questions is empty; the session \<open>createSession\<close> stores is in state
  \<open>ready\<close> with cursor 0 and no questions, so it counts as complete.
\<close>

theorem isTestComplete_without_questions:
  "(getSession c uid = None \<longrightarrow> \<not> isTestComplete c uid)
   \<and> (\<forall>s. getSession c uid = Some s \<and> questions s = [] \<longrightarrow> isTestComplete c uid)
   \<and> (case createSession c now uid uname of
        (c', s) \<Rightarrow> getSession c' uid = Some s \<and> state s = ''ready'' \<and> currentQuestion s = 0
                  \<and> questions s = [] \<and> isTestComplete c' uid)"
  by (simp add: isTestComplete_def createSession_def getSession_def Let_def)

theorem isTestComplete_without_questions_witness:
  "\<not> isTestComplete Map.empty 7
   \<and> isTestComplete (fst (createSession Map.empty 0 7 None)) 7"
  using isTestComplete_without_questions [of Map.empty 7 0 None]
  by (simp add: getSession_def split: prod.splits)

section \<open>Checking an answer\<close>

text \<open>
  C9. For a question id that no question of the bank has, \<open>getQuestionById\<close> returns
  null and \<open>checkAnswer\<close> throws the not-found error; the answer handler that called it
  leaves the session cache as it was. \<open>checkAnswer\<close> assigns to nothing: the service
  it reads is not among its results.
\<close>

theorem checkAnswer_unknown_id:
  assumes "\<forall>q \<in> set (svc_questions svc). q_id q \<noteq> Some questionId"
  shows "getQuestionById svc questionId = None
       \<and> checkAnswer svc questionId selectedOption = Inl (NotFound questionId)
       \<and> (e_questionService e = svc \<longrightarrow>
            fst (handleAnswer e c now uid questionId selectedOption) = c
          \<and> fst (fst (handleCallback e c now uid (Answer questionId selectedOption) rnd)) = c)"
proof -
  have g: "getQuestionById svc questionId = None"
    using assms by (simp add: getQuestionById_def find_None_iff)
  then have k: "checkAnswer svc questionId selectedOption = Inl (NotFound questionId)"
    by (simp add: checkAnswer_def)
  have h: "fst (handleAnswer e c now uid questionId selectedOption) = c" if "e_questionService e = svc"
    using k that by (simp add: handleAnswer_def split: option.splits)
  have "fst (fst (handleCallback e c now uid (Answer questionId selectedOption) rnd)) = c"
    if "e_questionService e = svc"
    using h [OF that] by (auto simp: handleCallback_def split: prod.splits sum.splits)
  with g k h show ?thesis by simp
qed

theorem checkAnswer_unknown_id_witness:
  "getQuestionById \<lparr>svc_questions = [q_demo]\<rparr> 99 = None
   \<and> checkAnswer \<lparr>svc_questions = [q_demo]\<rparr> 99 0 = Inl (NotFound 99)
   \<and> fst (handleAnswer \<lparr>e_questionService = \<lparr>svc_questions = [q_demo]\<rparr>,
                          e_assessmentConfig = getDefaultConfig, e_totalQuestions = None,
                          e_questionsPerLevel = None, e_monitoring = False\<rparr>
             Map.empty 0 7 99 0) = Map.empty"
  using checkAnswer_unknown_id [of "\<lparr>svc_questions = [q_demo]\<rparr>" 99 0
      "\<lparr>e_questionService = \<lparr>svc_questions = [q_demo]\<rparr>,
        e_assessmentConfig = getDefaultConfig, e_totalQuestions = None,
        e_questionsPerLevel = None, e_monitoring = False\<rparr>" Map.empty 0 7]
  by (simp add: q_demo_def)

text \<open>
  C1. The weight \<open>checkAnswer\<close> returns is \<open>question.weight || 1\<close>: for the README's
  question at level B2 without a \<open>weight\<close> it is 1, where the level table that
  \<open>calculateAssessment\<close> consults gives 4.
\<close>

theorem checkAnswer_weight_ignores_level:
  "(\<forall>coerce. new_QuestionService coerce (Parsed (file_json [q_demo])) = Inr (bank_json [q_demo]))
   \<and> checkAnswer \<lparr>svc_questions = [q_demo]\<rparr> 1 1 =
        Inr \<lparr>cr_isCorrect = True, cr_correctAnswer = Some 1, cr_correctOption = Some ''goes'',
             cr_selectedOption = 1, cr_weight = 1\<rparr>
   \<and> resolve_weight getDefaultConfig q_demo = 4"
proof -
  have "new_QuestionService coerce (Parsed (file_json [q_demo])) = Inr (bank_json [q_demo])" for coerce
    by (rule new_QuestionService_valid_bank) (simp add: spec_valid_q_demo)
  then show ?thesis
    by (simp add: checkAnswer_def getQuestionById_def
        option_at_def or_one_def resolve_weight_def js_or_def getDefaultConfig_def q_demo_def)
qed

section \<open>Recording an answer\<close>

text \<open>
  The record \<open>recordAnswer\<close> appends has the question id, the selected option, the
  correctness and the timestamp; the weight of the answer is not in it. Two answers
  that differ in their weight only leave the same cache behind, and a correct answer
  of weight 0 adds 1 to the score.
\<close>

theorem recordAnswer_keeps_no_weight:
  "recordAnswer [7 \<mapsto> s_demo] 5 7
      \<lparr>a_questionId = 1, a_selectedOption = 0, a_isCorrect = False, a_weight = Some 4\<rparr>
   = recordAnswer [7 \<mapsto> s_demo] 5 7
      \<lparr>a_questionId = 1, a_selectedOption = 0, a_isCorrect = False, a_weight = Some 9\<rparr>
   \<and> map_option score (snd (recordAnswer [7 \<mapsto> s_demo] 5 7
      \<lparr>a_questionId = 1, a_selectedOption = 1, a_isCorrect = True, a_weight = Some 0\<rparr>)) = Some 1"
  by (simp add: recordAnswer_def getSession_def s_demo_def or_one_def Let_def)

text \<open>
  C3. Without a session \<open>recordAnswer\<close> returns null and the cache is unchanged. With a
  session it appends one record of question id, selected option, correctness and
  timestamp, advances the cursor by one, and adds \<open>answer.weight || 1\<close> to the score if
  the answer is correct and nothing otherwise; the other fields and the other users'
  sessions stay as they were.
\<close>

theorem recordAnswer_effect:
  "(getSession c uid = None \<longrightarrow> recordAnswer c now uid a = (c, None))
   \<and> (\<forall>s. getSession c uid = Some s \<longrightarrow>
        recordAnswer c now uid a =
          (let s' = s\<lparr>answers := answers s @ [\<lparr>r_questionId = a_questionId a,
                                                r_selectedOption = a_selectedOption a,
                                                r_isCorrect = a_isCorrect a,
                                                r_timestamp = now\<rparr>],
                      currentQuestion := currentQuestion s + 1,
                      score := score s + (if a_isCorrect a
                                          then (case a_weight a of None \<Rightarrow> 1
                                                | Some w \<Rightarrow> if w = 0 then 1 else w)
                                          else 0)\<rparr>
           in (c(uid \<mapsto> s'), Some s')))"
  by (simp add: recordAnswer_def Let_def or_one_def split: option.splits)

theorem recordAnswer_effect_witness:
  "recordAnswer Map.empty 5 7
      \<lparr>a_questionId = 1, a_selectedOption = 1, a_isCorrect = True, a_weight = Some 4\<rparr>
     = (Map.empty, None)
   \<and> snd (recordAnswer [7 \<mapsto> s_demo] 5 7
      \<lparr>a_questionId = 1, a_selectedOption = 1, a_isCorrect = True, a_weight = Some 4\<rparr>)
     = Some (s_demo\<lparr>answers := [\<lparr>r_questionId = 1, r_selectedOption = 1, r_isCorrect = True,
                                   r_timestamp = 5\<rparr>],
                    currentQuestion := 1, score := 4\<rparr>)"
  using recordAnswer_effect [of Map.empty 7 5
      "\<lparr>a_questionId = 1, a_selectedOption = 1, a_isCorrect = True, a_weight = Some 4\<rparr>"]
    recordAnswer_effect [of "[7 \<mapsto> s_demo]" 7 5
      "\<lparr>a_questionId = 1, a_selectedOption = 1, a_isCorrect = True, a_weight = Some 4\<rparr>"]
  by (simp add: getSession_def s_demo_def Let_def)

section \<open>The assessment\<close>

lemma new_stats_created:
  "new_stats h [''vocabulary'', ''grammar''] = (h1, c) \<Longrightarrow>
   new_stats h1 [''A1'', ''A2'', ''B1'', ''B2''] = (h2, l) \<Longrightarrow>
   c = length (objects h) + 2 \<and> l = length (objects h) + 7
   \<and> prototype_writes h2 = prototype_writes h
   \<and> objects h2 = objects h @ created (length (objects h))
        \<lparr>st_correct = 0, st_total = 0\<rparr> \<lparr>st_correct = 0, st_total = 0\<rparr>
        \<lparr>st_correct = 0, st_total = 0\<rparr> \<lparr>st_correct = 0, st_total = 0\<rparr>
        \<lparr>st_correct = 0, st_total = 0\<rparr> \<lparr>st_correct = 0, st_total = 0\<rparr>"
  by (auto simp: new_stats_def new_object_def created_def)

lemma bump_at_writes:
  "(case key of None \<Rightarrow> True | Some k \<Rightarrow> k \<notin> set inherited) \<Longrightarrow>
   prototype_writes (bump_at h t key ok) = prototype_writes h"
  by (auto simp: bump_at_def split: option.splits cell.splits)

lemma bump_at_member:
  "object_at h t = Some (TableObj ms) \<Longrightarrow> map_of ms k = Some a \<Longrightarrow> object_at h a = Some (StatObj e) \<Longrightarrow>
   objects (bump_at h t (Some k) ok) = (objects h)[a := StatObj
       \<lparr>st_correct = (if ok then st_correct e + 1 else st_correct e), st_total = st_total e + 1\<rparr>]"
  by (simp add: bump_at_def)

lemma bump_at_absent:
  "object_at h t = Some (TableObj ms) \<Longrightarrow> map_of ms k = None \<Longrightarrow>
   objects (bump_at h t (Some k) ok) = objects h"
  by (simp add: bump_at_def)

lemma object_at_created:
  assumes "objects h = pre @ created n v g a1 a2 b1 b2" "length pre = n"
  shows "object_at h n = Some (StatObj v)"
    "object_at h (n + 1) = Some (StatObj g)"
    "object_at h (Suc n) = Some (StatObj g)"
    "object_at h (n + 2) = Some (TableObj [(''vocabulary'', n), (''grammar'', n + 1)])"
    "object_at h (n + 3) = Some (StatObj a1)"
    "object_at h (n + 4) = Some (StatObj a2)"
    "object_at h (n + 5) = Some (StatObj b1)"
    "object_at h (n + 6) = Some (StatObj b2)"
    "object_at h (n + 7) = Some (TableObj [(''A1'', n + 3), (''A2'', n + 4), (''B1'', n + 5), (''B2'', n + 6)])"
    "a < n \<Longrightarrow> object_at h a = Some (pre ! a)"
  using assms by (simp_all add: object_at_def created_def nth_append)

lemma bump_at_category:
  assumes o: "objects h = pre @ created n v g a1 a2 b1 b2" and n: "length pre = n"
  shows "\<exists>v' g'. objects (bump_at h (n + 2) key ok) = pre @ created n v' g' a1 a2 b1 b2
           \<and> bump (category_table v g) key ok = category_table v' g'"
proof (cases key)
  case None
  with o show ?thesis by (auto simp: bump_at_def bump_def)
next
  case (Some k)
  note t = object_at_created [OF o n]
  let ?up = "\<lambda>e. \<lparr>st_correct = (if ok then st_correct e + 1 else st_correct e), st_total = st_total e + 1\<rparr>"
  consider "k = ''vocabulary''" | "k = ''grammar''" | "k \<noteq> ''vocabulary''" "k \<noteq> ''grammar''"
    by blast
  then show ?thesis
  proof cases
    case 1
    have "objects (bump_at h (n + 2) (Some ''vocabulary'') ok) = (objects h)[n := StatObj (?up v)]"
      by (rule bump_at_member [OF t(4) _ t(1)]) simp
    then have "objects (bump_at h (n + 2) key ok) = pre @ created n (?up v) g a1 a2 b1 b2"
      using n by (simp add: Some 1 o created_def list_update_append)
    moreover have "bump (category_table v g) key ok = category_table (?up v) g"
      using Some 1 by (auto simp: bump_def category_table_def fun_eq_iff)
    ultimately show ?thesis by blast
  next
    case 2
    have "objects (bump_at h (n + 2) (Some ''grammar'') ok) = (objects h)[n + 1 := StatObj (?up g)]"
      by (rule bump_at_member [OF t(4) _ t(2)]) simp
    then have "objects (bump_at h (n + 2) key ok) = pre @ created n v (?up g) a1 a2 b1 b2"
      using n by (simp add: Some 2 o created_def list_update_append)
    moreover have "bump (category_table v g) key ok = category_table v (?up g)"
      using Some 2 by (auto simp: bump_def category_table_def fun_eq_iff)
    ultimately show ?thesis by blast
  next
    case 3
    have "objects (bump_at h (n + 2) (Some k) ok) = objects h"
      by (rule bump_at_absent [OF t(4)]) (simp add: 3)
    then have "objects (bump_at h (n + 2) key ok) = pre @ created n v g a1 a2 b1 b2"
      by (simp add: Some o)
    moreover have "bump (category_table v g) key ok = category_table v g"
      using Some 3 by (simp add: bump_def category_table_def)
    ultimately show ?thesis by blast
  qed
qed

lemma bump_at_level:
  assumes o: "objects h = pre @ created n v g a1 a2 b1 b2" and n: "length pre = n"
  shows "\<exists>a1' a2' b1' b2'. objects (bump_at h (n + 7) key ok) = pre @ created n v g a1' a2' b1' b2'
           \<and> bump (level_table a1 a2 b1 b2) key ok = level_table a1' a2' b1' b2'"
proof (cases key)
  case None
  with o show ?thesis by (auto simp: bump_at_def bump_def)
next
  case (Some k)
  note t = object_at_created [OF o n]
  let ?up = "\<lambda>e. \<lparr>st_correct = (if ok then st_correct e + 1 else st_correct e), st_total = st_total e + 1\<rparr>"
  consider "k = ''A1''" | "k = ''A2''" | "k = ''B1''" | "k = ''B2''"
    | "k \<noteq> ''A1''" "k \<noteq> ''A2''" "k \<noteq> ''B1''" "k \<noteq> ''B2''"
    by blast
  then show ?thesis
  proof cases
    case 1
    have "objects (bump_at h (n + 7) (Some ''A1'') ok) = (objects h)[n + 3 := StatObj (?up a1)]"
      by (rule bump_at_member [OF t(9) _ t(5)]) simp
    then have "objects (bump_at h (n + 7) key ok) = pre @ created n v g (?up a1) a2 b1 b2"
      using n by (simp add: Some 1 o created_def list_update_append)
    moreover have "bump (level_table a1 a2 b1 b2) key ok = level_table (?up a1) a2 b1 b2"
      using Some 1 by (auto simp: bump_def level_table_def fun_eq_iff)
    ultimately show ?thesis by blast
  next
    case 2
    have "objects (bump_at h (n + 7) (Some ''A2'') ok) = (objects h)[n + 4 := StatObj (?up a2)]"
      by (rule bump_at_member [OF t(9) _ t(6)]) simp
    then have "objects (bump_at h (n + 7) key ok) = pre @ created n v g a1 (?up a2) b1 b2"
      using n by (simp add: Some 2 o created_def list_update_append)
    moreover have "bump (level_table a1 a2 b1 b2) key ok = level_table a1 (?up a2) b1 b2"
      using Some 2 by (auto simp: bump_def level_table_def fun_eq_iff)
    ultimately show ?thesis by blast
  next
    case 3
    have "objects (bump_at h (n + 7) (Some ''B1'') ok) = (objects h)[n + 5 := StatObj (?up b1)]"
      by (rule bump_at_member [OF t(9) _ t(7)]) simp
    then have "objects (bump_at h (n + 7) key ok) = pre @ created n v g a1 a2 (?up b1) b2"
      using n by (simp add: Some 3 o created_def list_update_append)
    moreover have "bump (level_table a1 a2 b1 b2) key ok = level_table a1 a2 (?up b1) b2"
      using Some 3 by (auto simp: bump_def level_table_def fun_eq_iff)
    ultimately show ?thesis by blast
  next
    case 4
    have "objects (bump_at h (n + 7) (Some ''B2'') ok) = (objects h)[n + 6 := StatObj (?up b2)]"
      by (rule bump_at_member [OF t(9) _ t(8)]) simp
    then have "objects (bump_at h (n + 7) key ok) = pre @ created n v g a1 a2 b1 (?up b2)"
      using n by (simp add: Some 4 o created_def list_update_append)
    moreover have "bump (level_table a1 a2 b1 b2) key ok = level_table a1 a2 b1 (?up b2)"
      using Some 4 by (auto simp: bump_def level_table_def fun_eq_iff)
    ultimately show ?thesis by blast
  next
    case 5
    have "objects (bump_at h (n + 7) (Some k) ok) = objects h"
      by (rule bump_at_absent [OF t(9)]) (simp add: 5)
    then have "objects (bump_at h (n + 7) key ok) = pre @ created n v g a1 a2 b1 b2"
      by (simp add: Some o)
    moreover have "bump (level_table a1 a2 b1 b2) key ok = level_table a1 a2 b1 b2"
      using Some 5 by (simp add: bump_def level_table_def)
    ultimately show ?thesis by blast
  qed
qed


lemma tally_answer_at_created:
  assumes o: "objects h = pre @ created n v g a1 a2 b1 b2" and n: "length pre = n"
    and q: "qa < n" "pre ! qa = QuestionsArr qs"
  shows "\<exists>h' v' g' a1' a2' b1' b2' tw' ew'.
      tally_answer_at cfg qa (n + 2) (n + 7) (h, tw, ew) a = Inr (h', tw', ew')
    \<and> objects h' = pre @ created n v' g' a1' a2' b1' b2'
    \<and> tally_answer cfg qs \<lparr>t_totalWeight = tw, t_earnedWeight = ew,
          t_categoryStats = category_table v g, t_levelStats = level_table a1 a2 b1 b2\<rparr> a
        = \<lparr>t_totalWeight = tw', t_earnedWeight = ew',
           t_categoryStats = category_table v' g', t_levelStats = level_table a1' a2' b1' b2'\<rparr>
    \<and> ((\<forall>q \<in> set qs. plain_keys q) \<longrightarrow> prototype_writes h' = prototype_writes h)"
proof -
  have qs: "object_at h qa = Some (QuestionsArr qs)"
    using object_at_created(10) [OF o n q(1)] q(2) by simp
  show ?thesis
  proof (cases "find (\<lambda>q. q_id q = Some (r_questionId a)) qs")
    case None
    have "tally_answer_at cfg qa (n + 2) (n + 7) (h, tw, ew) a = Inr (h, tw, ew)"
      by (simp add: tally_answer_at_def qs None)
    moreover have "tally_answer cfg qs \<lparr>t_totalWeight = tw, t_earnedWeight = ew,
          t_categoryStats = category_table v g, t_levelStats = level_table a1 a2 b1 b2\<rparr> a
        = \<lparr>t_totalWeight = tw, t_earnedWeight = ew,
           t_categoryStats = category_table v g, t_levelStats = level_table a1 a2 b1 b2\<rparr>"
      by (simp add: tally_answer_def None)
    ultimately show ?thesis
      using o by blast
  next
    case (Some question)
    then have m: "question \<in> set qs"
      by (auto simp: find_Some_iff)
    let ?h1 = "bump_at h (n + 2) (q_category question) (r_isCorrect a)"
    let ?h2 = "bump_at ?h1 (n + 7) (q_level question) (r_isCorrect a)"
    from bump_at_category [OF o n, of "q_category question" "r_isCorrect a"]
    obtain v' g' where c: "objects ?h1 = pre @ created n v' g' a1 a2 b1 b2"
      and cv: "bump (category_table v g) (q_category question) (r_isCorrect a) = category_table v' g'"
      by blast
    from bump_at_level [OF c n, of "q_level question" "r_isCorrect a"]
    obtain a1' a2' b1' b2' where l: "objects ?h2 = pre @ created n v' g' a1' a2' b1' b2'"
      and lv: "bump (level_table a1 a2 b1 b2) (q_level question) (r_isCorrect a) = level_table a1' a2' b1' b2'"
      by blast
    have r: "tally_answer_at cfg qa (n + 2) (n + 7) (h, tw, ew) a
        = Inr (?h2, tw + resolve_weight cfg question,
               if r_isCorrect a then ew + resolve_weight cfg question else ew)"
      by (simp add: tally_answer_at_def qs Some Let_def)
    have t: "tally_answer cfg qs \<lparr>t_totalWeight = tw, t_earnedWeight = ew,
          t_categoryStats = category_table v g, t_levelStats = level_table a1 a2 b1 b2\<rparr> a
        = \<lparr>t_totalWeight = tw + resolve_weight cfg question,
           t_earnedWeight = (if r_isCorrect a then ew + resolve_weight cfg question else ew),
           t_categoryStats = category_table v' g', t_levelStats = level_table a1' a2' b1' b2'\<rparr>"
      by (simp add: tally_answer_def Some Let_def cv lv)
    have w: "prototype_writes ?h2 = prototype_writes h" if "\<forall>q \<in> set qs. plain_keys q"
    proof -
      from that m have "plain_keys question" by simp
      then show ?thesis
        by (simp add: bump_at_writes plain_keys_def)
    qed
    from r l t w show ?thesis
      by blast
  qed
qed

lemma tally_answers_at_created:
  assumes n: "length pre = n" and q: "qa < n" "pre ! qa = QuestionsArr qs"
  shows "objects h = pre @ created n v g a1 a2 b1 b2 \<Longrightarrow>
    \<exists>h' v' g' a1' a2' b1' b2' tw' ew'.
      tally_answers_at cfg qa (n + 2) (n + 7) (h, tw, ew) as = Inr (h', tw', ew')
    \<and> objects h' = pre @ created n v' g' a1' a2' b1' b2'
    \<and> tally_answers cfg qs \<lparr>t_totalWeight = tw, t_earnedWeight = ew,
          t_categoryStats = category_table v g, t_levelStats = level_table a1 a2 b1 b2\<rparr> as
        = \<lparr>t_totalWeight = tw', t_earnedWeight = ew',
           t_categoryStats = category_table v' g', t_levelStats = level_table a1' a2' b1' b2'\<rparr>
    \<and> ((\<forall>q \<in> set qs. plain_keys q) \<longrightarrow> prototype_writes h' = prototype_writes h)"
proof (induction as arbitrary: h v g a1 a2 b1 b2 tw ew)
  case Nil
  have "tally_answers_at cfg qa (n + 2) (n + 7) (h, tw, ew) [] = Inr (h, tw, ew)"
    by simp
  moreover have "tally_answers cfg qs \<lparr>t_totalWeight = tw, t_earnedWeight = ew,
          t_categoryStats = category_table v g, t_levelStats = level_table a1 a2 b1 b2\<rparr> []
        = \<lparr>t_totalWeight = tw, t_earnedWeight = ew,
           t_categoryStats = category_table v g, t_levelStats = level_table a1 a2 b1 b2\<rparr>"
    by simp
  ultimately show ?case
    using Nil by blast
next
  case (Cons a as)
  from tally_answer_at_created [OF Cons.prems n q, of cfg tw ew a]
  obtain h1 v1 g1 c1 c2 d1 d2 tw1 ew1 where
    s: "tally_answer_at cfg qa (n + 2) (n + 7) (h, tw, ew) a = Inr (h1, tw1, ew1)"
    and o: "objects h1 = pre @ created n v1 g1 c1 c2 d1 d2"
    and t: "tally_answer cfg qs \<lparr>t_totalWeight = tw, t_earnedWeight = ew,
          t_categoryStats = category_table v g, t_levelStats = level_table a1 a2 b1 b2\<rparr> a
        = \<lparr>t_totalWeight = tw1, t_earnedWeight = ew1,
           t_categoryStats = category_table v1 g1, t_levelStats = level_table c1 c2 d1 d2\<rparr>"
    and w: "(\<forall>q \<in> set qs. plain_keys q) \<longrightarrow> prototype_writes h1 = prototype_writes h"
    by blast
  from Cons.IH [OF o, of tw1 ew1]
  obtain h' v' g' a1' a2' b1' b2' tw' ew' where
    s': "tally_answers_at cfg qa (n + 2) (n + 7) (h1, tw1, ew1) as = Inr (h', tw', ew')"
    and o': "objects h' = pre @ created n v' g' a1' a2' b1' b2'"
    and t': "tally_answers cfg qs \<lparr>t_totalWeight = tw1, t_earnedWeight = ew1,
          t_categoryStats = category_table v1 g1, t_levelStats = level_table c1 c2 d1 d2\<rparr> as
        = \<lparr>t_totalWeight = tw', t_earnedWeight = ew',
           t_categoryStats = category_table v' g', t_levelStats = level_table a1' a2' b1' b2'\<rparr>"
    and w': "(\<forall>q \<in> set qs. plain_keys q) \<longrightarrow> prototype_writes h' = prototype_writes h1"
    by blast
  have 1: "tally_answers_at cfg qa (n + 2) (n + 7) (h, tw, ew) (a # as) = Inr (h', tw', ew')"
    by (simp only: tally_answers_at.simps s sum.case s')
  have 2: "tally_answers cfg qs \<lparr>t_totalWeight = tw, t_earnedWeight = ew,
          t_categoryStats = category_table v g, t_levelStats = level_table a1 a2 b1 b2\<rparr> (a # as)
        = \<lparr>t_totalWeight = tw', t_earnedWeight = ew',
           t_categoryStats = category_table v' g', t_levelStats = level_table a1' a2' b1' b2'\<rparr>"
    by (simp add: t t')
  from w w' have 3: "(\<forall>q \<in> set qs. plain_keys q) \<longrightarrow> prototype_writes h' = prototype_writes h"
    by simp
  from 1 o' 2 3 show ?case
    by blast
qed

text \<open>What a reader finds at the two tables in a store that still holds the created objects.\<close>

lemma stats_at_created:
  assumes "take (n + 8) (objects h) = pre @ created n v g a1 a2 b1 b2" "length pre = n"
  shows "stats_at h (n + 2) = category_table v g"
    "stats_at h (n + 7) = level_table a1 a2 b1 b2"
proof -
  have len: "n + 8 \<le> length (objects h)"
  proof (rule ccontr)
    assume "\<not> n + 8 \<le> length (objects h)"
    then have "length (take (n + 8) (objects h)) < n + 8" by simp
    with assms show False by (simp add: created_def)
  qed
  have nth: "objects h ! i = (pre @ created n v g a1 a2 b1 b2) ! i" if "i < n + 8" for i
    using that assms(1) by (metis nth_take)
  have a: "object_at h (n + k) = Some (created n v g a1 a2 b1 b2 ! k)" if "k < 8" for k
    using that len nth [of "n + k"] assms(2) by (simp add: object_at_def nth_append)
  have c: "object_at h n = Some (StatObj v)" "object_at h (n + 1) = Some (StatObj g)"
    "object_at h (n + 2) = Some (TableObj [(''vocabulary'', n), (''grammar'', n + 1)])"
    "object_at h (n + 3) = Some (StatObj a1)" "object_at h (n + 4) = Some (StatObj a2)"
    "object_at h (n + 5) = Some (StatObj b1)" "object_at h (n + 6) = Some (StatObj b2)"
    "object_at h (n + 7) = Some (TableObj [(''A1'', n + 3), (''A2'', n + 4), (''B1'', n + 5), (''B2'', n + 6)])"
    using a [of 0] a [of 1] a [of 2] a [of 3] a [of 4] a [of 5] a [of 6] a [of 7]
    by (simp_all add: created_def)
  from c(2) have c': "object_at h (Suc n) = Some (StatObj g)"
    by simp
  show "stats_at h (n + 2) = category_table v g"
    unfolding stats_at_def c by (auto simp: fun_eq_iff category_table_def c c')
  show "stats_at h (n + 7) = level_table a1 a2 b1 b2"
    unfolding stats_at_def c by (auto simp: fun_eq_iff level_table_def c)
qed

lemma percentages_at_created:
  assumes "objects h = pre @ created n v g a1 a2 b1 b2" "length pre = n"
  shows "percentages_at h (n + 2) = map_option stat_percentage \<circ> category_table v g"
    "percentages_at h (n + 7) = map_option stat_percentage \<circ> level_table a1 a2 b1 b2"
proof -
  note c = object_at_created [OF assms]
  show "percentages_at h (n + 2) = map_option stat_percentage \<circ> category_table v g"
    unfolding percentages_at_def c by (auto simp: fun_eq_iff category_table_def c)
  show "percentages_at h (n + 7) = map_option stat_percentage \<circ> level_table a1 a2 b1 b2"
    unfolding percentages_at_def c by (auto simp: fun_eq_iff level_table_def c)
qed

lemma tally0_tables:
  "tally0 = \<lparr>t_totalWeight = 0, t_earnedWeight = 0,
      t_categoryStats = category_table \<lparr>st_correct = 0, st_total = 0\<rparr> \<lparr>st_correct = 0, st_total = 0\<rparr>,
      t_levelStats = level_table \<lparr>st_correct = 0, st_total = 0\<rparr> \<lparr>st_correct = 0, st_total = 0\<rparr>
          \<lparr>st_correct = 0, st_total = 0\<rparr> \<lparr>st_correct = 0, st_total = 0\<rparr>\<rparr>"
  by (simp add: tally0_def category_table_def level_table_def)

text \<open>One call: what it returns, what it creates and what it leaves.\<close>

lemma calculateAssessment_at_run:
  assumes s: "object_at h sa = Some (SessionObj s)" and q: "object_at h qa = Some (QuestionsArr qs)"
  shows "\<exists>r h'. calculateAssessment_at cfg sa qa (h, clk) = Inr (r, h', \<lambda>n. clk (Suc n))
     \<and> length (objects h') = length (objects h) + 8
     \<and> take (length (objects h)) (objects h') = objects h
     \<and> o_completedAt r = clk 0
     \<and> (\<forall>h''. take (length (objects h')) (objects h'') = objects h' \<longrightarrow>
            assessment_in h'' r = calculateAssessment cfg (clk 0) s qs)
     \<and> ((\<forall>q \<in> set qs. plain_keys q) \<longrightarrow> prototype_writes h' = prototype_writes h)"
proof -
  define n where "n = length (objects h)"
  let ?z = "\<lparr>st_correct = 0, st_total = 0\<rparr>"
  obtain h1 c where 1: "new_stats h [''vocabulary'', ''grammar''] = (h1, c)"
    by (cases "new_stats h [''vocabulary'', ''grammar'']")
  obtain h2 l where 2: "new_stats h1 [''A1'', ''A2'', ''B1'', ''B2''] = (h2, l)"
    by (cases "new_stats h1 [''A1'', ''A2'', ''B1'', ''B2'']")
  from new_stats_created [OF 1 2]
  have c: "c = n + 2" and l: "l = n + 7" and w2: "prototype_writes h2 = prototype_writes h"
    and o2: "objects h2 = objects h @ created n ?z ?z ?z ?z ?z ?z"
    by (simp_all add: n_def)
  have len: "length (objects h) = n"
    by (simp add: n_def)
  from q have qn: "qa < n" and qq: "objects h ! qa = QuestionsArr qs"
    by (simp_all add: object_at_def n_def split: if_splits)
  from tally_answers_at_created [OF len qn qq o2, of cfg 0 0 "answers s"]
  obtain h3 v g a1 a2 b1 b2 tw ew where
    t3: "tally_answers_at cfg qa (n + 2) (n + 7) (h2, 0, 0) (answers s) = Inr (h3, tw, ew)"
    and o3: "objects h3 = objects h @ created n v g a1 a2 b1 b2"
    and v3: "tally_answers cfg qs tally0 (answers s)
        = \<lparr>t_totalWeight = tw, t_earnedWeight = ew,
           t_categoryStats = category_table v g, t_levelStats = level_table a1 a2 b1 b2\<rparr>"
    and w3: "(\<forall>q \<in> set qs. plain_keys q) \<longrightarrow> prototype_writes h3 = prototype_writes h2"
    unfolding tally0_tables by blast
  define pct where "pct = (if tw > 0 then round_percent ew tw else 0)"
  define r where "r = \<lparr>o_level = determineLevel cfg pct,
       o_percentageScore = pct,
       o_totalQuestions = length (answers s),
       o_correctAnswers = length (filter r_isCorrect (answers s)),
       o_categoryStats = n + 2,
       o_categoryPercentages = percentages_at h3 (n + 2),
       o_levelStats = n + 7,
       o_levelPercentages = percentages_at h3 (n + 7),
       o_earnedWeight = ew,
       o_totalWeight = tw,
       o_recommendation = getRecommendation cfg (determineLevel cfg pct),
       o_completedAt = clk 0\<rparr>"
  have run: "calculateAssessment_at cfg sa qa (h, clk) = Inr (r, h3, \<lambda>n. clk (Suc n))"
    by (simp only: calculateAssessment_at_def prod.case s option.case cell.case 1 2 c l t3
        sum.case Let_def r_def pct_def)
  have l3: "length (objects h3) = length (objects h) + 8"
    by (simp add: o3 created_def)
  have k3: "take (length (objects h)) (objects h3) = objects h"
    by (simp add: o3)
  have view: "assessment_in h'' r = calculateAssessment cfg (clk 0) s qs"
    if "take (length (objects h3)) (objects h'') = objects h3" for h''
  proof -
    from that [unfolded l3] have "take (n + 8) (objects h'') = objects h @ created n v g a1 a2 b1 b2"
      by (simp add: o3 n_def)
    note st = stats_at_created [OF this len]
    note pc = percentages_at_created [OF o3 len]
    show ?thesis
      using st pc by (simp add: assessment_in_def calculateAssessment_def Let_def v3 r_def pct_def)
  qed
  from w2 w3 have w: "(\<forall>q \<in> set qs. plain_keys q) \<longrightarrow> prototype_writes h3 = prototype_writes h"
    by simp
  have ca: "o_completedAt r = clk 0"
    by (simp add: r_def)
  from run l3 k3 ca view w show ?thesis
    by blast
qed


lemma object_at_take:
  assumes "take (length (objects h)) (objects h') = objects h" "object_at h a = Some c"
  shows "object_at h' a = Some c"
proof -
  from assms(2) have a: "a < length (objects h)" and c: "objects h ! a = c"
    by (simp_all add: object_at_def split: if_splits)
  have "length (take (length (objects h)) (objects h')) = length (objects h)"
    by (simp only: assms(1))
  then have l: "length (objects h) \<le> length (objects h')"
    by simp
  have "take (length (objects h)) (objects h') ! a = objects h' ! a"
    using a by simp
  then have "objects h' ! a = c"
    by (simp only: assms(1) c)
  with a l show ?thesis
    by (simp add: object_at_def)
qed

lemma calculateAssessment_completedAt:
  "calculateAssessment cfg now' s qs = (calculateAssessment cfg now s qs)\<lparr>completedAt := now'\<rparr>"
  by (simp add: calculateAssessment_def Let_def)

text \<open>Two calls in a row.\<close>

lemma calculateAssessment_twice_run:
  assumes s: "object_at h sa = Some (SessionObj s)" and q: "object_at h qa = Some (QuestionsArr qs)"
  shows "\<exists>r1 h1 r2 h2.
      calculateAssessment_twice cfg sa qa (h, clk) = Inr ((r1, h1), (r2, h2))
    \<and> o_completedAt r1 = clk 0 \<and> o_completedAt r2 = clk 1
    \<and> assessment_in h1 r1 = calculateAssessment cfg (clk 0) s qs
    \<and> assessment_in h2 r2 = calculateAssessment cfg (clk 1) s qs
    \<and> assessment_in h2 r1 = assessment_in h1 r1
    \<and> take (length (objects h)) (objects h1) = objects h
    \<and> take (length (objects h1)) (objects h2) = objects h1
    \<and> object_at h2 sa = Some (SessionObj s)
    \<and> object_at h2 qa = Some (QuestionsArr qs)
    \<and> ((\<forall>q \<in> set qs. plain_keys q) \<longrightarrow> prototype_writes h2 = prototype_writes h)"
proof -
  from calculateAssessment_at_run [OF s q, of cfg clk]
  obtain r1 h1 where c1: "calculateAssessment_at cfg sa qa (h, clk) = Inr (r1, h1, \<lambda>n. clk (Suc n))"
    and k1: "take (length (objects h)) (objects h1) = objects h"
    and t1: "o_completedAt r1 = clk 0"
    and v1: "\<forall>h''. take (length (objects h1)) (objects h'') = objects h1 \<longrightarrow>
            assessment_in h'' r1 = calculateAssessment cfg (clk 0) s qs"
    and w1: "(\<forall>q \<in> set qs. plain_keys q) \<longrightarrow> prototype_writes h1 = prototype_writes h"
    by blast
  have s1: "object_at h1 sa = Some (SessionObj s)"
    by (rule object_at_take [OF k1 s])
  have q1: "object_at h1 qa = Some (QuestionsArr qs)"
    by (rule object_at_take [OF k1 q])
  from calculateAssessment_at_run [OF s1 q1, of cfg "\<lambda>n. clk (Suc n)"]
  obtain r2 h2 where c2: "calculateAssessment_at cfg sa qa (h1, \<lambda>n. clk (Suc n))
        = Inr (r2, h2, \<lambda>n. clk (Suc (Suc n)))"
    and k2: "take (length (objects h1)) (objects h2) = objects h1"
    and t2: "o_completedAt r2 = clk (Suc 0)"
    and v2: "\<forall>h''. take (length (objects h2)) (objects h'') = objects h2 \<longrightarrow>
            assessment_in h'' r2 = calculateAssessment cfg (clk (Suc 0)) s qs"
    and w2: "(\<forall>q \<in> set qs. plain_keys q) \<longrightarrow> prototype_writes h2 = prototype_writes h1"
    by blast
  have run: "calculateAssessment_twice cfg sa qa (h, clk) = Inr ((r1, h1), (r2, h2))"
    by (simp add: calculateAssessment_twice_def c1 c2)
  from v1 have a1: "assessment_in h1 r1 = calculateAssessment cfg (clk 0) s qs"
    by simp
  from v1 k2 have a12: "assessment_in h2 r1 = calculateAssessment cfg (clk 0) s qs"
    by simp
  from v2 have a2: "assessment_in h2 r2 = calculateAssessment cfg (clk 1) s qs"
    by simp
  have s2: "object_at h2 sa = Some (SessionObj s)"
    by (rule object_at_take [OF k2 s1])
  have q2: "object_at h2 qa = Some (QuestionsArr qs)"
    by (rule object_at_take [OF k2 q1])
  from w1 w2 have w: "(\<forall>q \<in> set qs. plain_keys q) \<longrightarrow> prototype_writes h2 = prototype_writes h"
    by simp
  from t2 have t2': "o_completedAt r2 = clk 1"
    by simp
  from a1 a12 have a3: "assessment_in h2 r1 = assessment_in h1 r1"
    by simp
  from run t1 t2' a1 a2 a3 k1 k2 s2 q2 w show ?thesis
    by blast
qed

lemma store_demo_objects:
  "object_at store_demo 0 = Some (SessionObj s_done)"
  "object_at store_demo 1 = Some (QuestionsArr [q_demo])"
  by (simp_all add: store_demo_def object_at_def)

lemma plain_keys_q_demo: "plain_keys q_demo"
  by (simp add: plain_keys_def q_demo_def inherited_def)


text \<open>A question of a bank that passes validation has a plain category and a plain level.\<close>

lemma plain_keys_valid:
  assumes "validateQuestions coerce (bank_json qs) = Inr ()"
  shows "\<forall>q \<in> set qs. plain_keys q"
proof
  fix q
  assume m: "q \<in> set qs"
  have i: "\<forall>j \<in> set (map question_json qs). integral_index j"
    by (simp add: integral_index_question_json)
  from assms have "validateQuestions_loop coerce (map question_json qs) = Inr ()"
    by (simp add: validateQuestions_def bank_json_def iterate_def)
  with validateQuestions_loop_ok [OF i] m have "spec_valid_question (question_json q)"
    by simp
  then have "rule_level (question_json q)" "rule_category (question_json q)"
    by (simp_all add: spec_valid_question_def)
  then show "plain_keys q"
    by (auto simp: rule_level_def rule_category_def get_member_question_json plain_keys_def
        inherited_def split: option.splits)
qed

text \<open>
  A key that is the name of a member of \<open>Object.prototype\<close> reaches that member: the
  category \<open>constructor\<close> makes \<open>categoryStats[question.category].total++\<close> set a
  property of the function \<open>Object\<close>.
\<close>

lemma bump_at_inherited_key:
  assumes "object_at h t = Some (TableObj ms)" "map_of ms ''constructor'' = None"
  shows "prototype_writes (bump_at h t (Some ''constructor'') True)
     = prototype_writes h @ [(''constructor'', ''total''), (''constructor'', ''correct'')]"
  using assms by (simp add: bump_at_def inherited_def)

text \<open>
  Each call reads the clock for \<open>completedAt\<close>: of two calls, one after the other, on
  the same session and the same questions, at a clock that shows 10 and then 11, the
  first returns the time 10 and the second the time 11.
\<close>

theorem calculateAssessment_twice_differs:
  "completedAt_twice getDefaultConfig 0 1 (store_demo, clock_demo) = Inr (10, 11)"
proof -
  from calculateAssessment_twice_run [OF store_demo_objects, of getDefaultConfig clock_demo]
  obtain r1 h1 r2 h2 where
    "calculateAssessment_twice getDefaultConfig 0 1 (store_demo, clock_demo) = Inr ((r1, h1), (r2, h2))"
    "o_completedAt r1 = clock_demo 0" "o_completedAt r2 = clock_demo 1"
    by blast
  then show ?thesis
    by (simp add: completedAt_twice_def clock_demo_def)
qed


text \<open>
  C2. Two calls of \<open>calculateAssessment\<close>, one after the other, on the references to a
  session and to an array of questions both return. What a reader finds in the first
  result is the assessment of the answers of the session on the questions, with the
  first reading of the clock as \<open>completedAt\<close>; the second result differs from it in
  \<open>completedAt\<close> alone, which is the second reading; and the second call changes nothing
  in the first result. Either call leaves every object that was there before it as it
  was, the session and the questions among them: what it writes to are the counters
  it has created itself. If no category and no level of the questions is the name of a
  member of \<open>Object.prototype\<close>, as in every bank that passes validation, no built-in
  object is written to either.
\<close>

theorem calculateAssessment_twice_same_but_clock:
  assumes "object_at h session_ref = Some (SessionObj s)"
    and "object_at h questions_ref = Some (QuestionsArr qs)"
  shows "\<exists>r1 h1 r2 h2.
      calculateAssessment_twice cfg session_ref questions_ref (h, clk) = Inr ((r1, h1), (r2, h2))
    \<and> assessment_in h1 r1 = calculateAssessment cfg (clk 0) s qs
    \<and> assessment_in h2 r2 = (assessment_in h1 r1)\<lparr>completedAt := clk 1\<rparr>
    \<and> assessment_in h2 r1 = assessment_in h1 r1
    \<and> take (length (objects h)) (objects h1) = objects h
    \<and> take (length (objects h1)) (objects h2) = objects h1
    \<and> object_at h2 session_ref = Some (SessionObj s)
    \<and> object_at h2 questions_ref = Some (QuestionsArr qs)
    \<and> ((\<forall>q \<in> set qs. plain_keys q) \<longrightarrow> prototype_writes h2 = prototype_writes h)
    \<and> ((\<exists>coerce. validateQuestions coerce (bank_json qs) = Inr ()) \<longrightarrow>
          prototype_writes h2 = prototype_writes h)"
proof -
  from calculateAssessment_twice_run [OF assms, of cfg clk]
  obtain r1 h1 r2 h2 where
    run: "calculateAssessment_twice cfg session_ref questions_ref (h, clk) = Inr ((r1, h1), (r2, h2))"
    and a1: "assessment_in h1 r1 = calculateAssessment cfg (clk 0) s qs"
    and a2: "assessment_in h2 r2 = calculateAssessment cfg (clk 1) s qs"
    and a3: "assessment_in h2 r1 = assessment_in h1 r1"
    and k: "take (length (objects h)) (objects h1) = objects h"
      "take (length (objects h1)) (objects h2) = objects h1"
      "object_at h2 session_ref = Some (SessionObj s)"
      "object_at h2 questions_ref = Some (QuestionsArr qs)"
      "(\<forall>q \<in> set qs. plain_keys q) \<longrightarrow> prototype_writes h2 = prototype_writes h"
    by blast
  from a1 a2 have "assessment_in h2 r2 = (assessment_in h1 r1)\<lparr>completedAt := clk 1\<rparr>"
    by (simp only: calculateAssessment_completedAt [of cfg "clk 1" s qs "clk 0"])
  moreover from k(5) have "(\<exists>coerce. validateQuestions coerce (bank_json qs) = Inr ()) \<longrightarrow>
          prototype_writes h2 = prototype_writes h"
    using plain_keys_valid [of _ qs] by blast
  ultimately show ?thesis
    using run a1 a3 k by blast
qed

theorem calculateAssessment_twice_same_but_clock_witness:
  "\<exists>r1 h1 r2 h2.
      calculateAssessment_twice getDefaultConfig 0 1 (store_demo, clock_demo) = Inr ((r1, h1), (r2, h2))
    \<and> assessment_in h1 r1 = calculateAssessment getDefaultConfig 10 s_done [q_demo]
    \<and> assessment_in h2 r2 = (assessment_in h1 r1)\<lparr>completedAt := 11\<rparr>
    \<and> assessment_in h2 r1 = assessment_in h1 r1
    \<and> object_at h2 0 = Some (SessionObj s_done)
    \<and> object_at h2 1 = Some (QuestionsArr [q_demo])
    \<and> prototype_writes h2 = prototype_writes store_demo"
proof -
  have p: "\<forall>q \<in> set [q_demo]. plain_keys q"
    by (simp add: plain_keys_q_demo)
  from calculateAssessment_twice_same_but_clock [OF store_demo_objects, of getDefaultConfig clock_demo]
  obtain r1 h1 r2 h2 where
    "calculateAssessment_twice getDefaultConfig 0 1 (store_demo, clock_demo) = Inr ((r1, h1), (r2, h2))"
    "assessment_in h1 r1 = calculateAssessment getDefaultConfig (clock_demo 0) s_done [q_demo]"
    "assessment_in h2 r2 = (assessment_in h1 r1)\<lparr>completedAt := clock_demo 1\<rparr>"
    "assessment_in h2 r1 = assessment_in h1 r1"
    "object_at h2 0 = Some (SessionObj s_done)"
    "object_at h2 1 = Some (QuestionsArr [q_demo])"
    "(\<forall>q \<in> set [q_demo]. plain_keys q) \<longrightarrow> prototype_writes h2 = prototype_writes store_demo"
    by blast
  with p have
    "calculateAssessment_twice getDefaultConfig 0 1 (store_demo, clock_demo) = Inr ((r1, h1), (r2, h2))
    \<and> assessment_in h1 r1 = calculateAssessment getDefaultConfig 10 s_done [q_demo]
    \<and> assessment_in h2 r2 = (assessment_in h1 r1)\<lparr>completedAt := 11\<rparr>
    \<and> assessment_in h2 r1 = assessment_in h1 r1
    \<and> object_at h2 0 = Some (SessionObj s_done)
    \<and> object_at h2 1 = Some (QuestionsArr [q_demo])
    \<and> prototype_writes h2 = prototype_writes store_demo"
    by (simp add: clock_demo_def)
  then show ?thesis
    by blast
qed

section \<open>Loading the question bank\<close>

text \<open>
  C6. The index check compares after conversion to a number and \<open>null\<close> converts to 0:
  the README's question with \<open>"correct": null\<close> passes validation and is loaded, and so
  is the same question with \<open>"correct": 1.5\<close>, though neither has a correct index within
  0 to 3. And \<open>loadQuestions\<close> assigns the parsed questions to the service before it
  validates them: a reload of a bank with an invalid question throws and leaves the
  service holding that bank, the invalid question included. The error for a missing
  field of a question with the id 0 prints \<open>unknown\<close> for the id.
\<close>

theorem load_accepts_null_index:
  "(\<forall>coerce. new_QuestionService coerce (Parsed (JObj [(''questions'', JArr [q_null])]))
       = Inr (JArr [q_null]))
   \<and> get_member q_null ''correct'' = Some JNull
   \<and> \<not> rule_correct_index q_null
   \<and> (\<forall>coerce. new_QuestionService coerce (Parsed (JObj [(''questions'', JArr [q_half])]))
       = Inr (JArr [q_half]))
   \<and> \<not> rule_correct_index q_half
   \<and> (\<forall>coerce. reloadQuestions coerce (bank_json [q_demo]) (Parsed (file_json [q_demo, q_bad]))
       = (bank_json [q_demo, q_bad],
          Inl (LoadFailed (BadLevel (Some (json_int 2)) (Some (JStr ''C1''))))))
   \<and> \<not> spec_valid_question (question_json q_bad)
   \<and> q_id q_zero = Some 0
   \<and> (\<forall>coerce. validateQuestions coerce (bank_json [q_zero]) = Inl (MissingField None ''text''))
   \<and> named_id (MissingField None ''text'') = None"
proof -
  have m: "get_member q_null ''id'' = Some (json_int 1)"
    "get_member q_null ''text'' = Some (JStr ''She ______ to school every day.'')"
    "get_member q_null ''options'' = Some (JArr [JStr ''go'', JStr ''goes'', JStr ''going'', JStr ''went''])"
    "get_member q_null ''correct'' = Some JNull"
    "get_member q_null ''level'' = Some (JStr ''B2'')"
    "get_member q_null ''category'' = Some (JStr ''grammar'')"
    "q_null \<noteq> JNull"
    by (simp_all add: q_null_def get_member_def)
  have h: "get_member q_half ''id'' = Some (json_int 1)"
    "get_member q_half ''text'' = Some (JStr ''She ______ to school every day.'')"
    "get_member q_half ''options'' = Some (JArr [JStr ''go'', JStr ''goes'', JStr ''going'', JStr ''went''])"
    "get_member q_half ''correct'' = Some (JNum (Finite (3 / 2)))"
    "get_member q_half ''level'' = Some (JStr ''B2'')"
    "get_member q_half ''category'' = Some (JStr ''grammar'')"
    "q_half \<noteq> JNull"
    by (simp_all add: q_half_def get_member_def)
  have vn: "validateQuestion coerce q_null = Inr ()" for coerce
    by (simp add: validateQuestion_def requiredFields_def options_not_four_def
        correct_out_of_range_def less_than_def greater_than_def ToNumber_def array_includes_def
        validLevels_def validCategories_def m)
  have vh: "validateQuestion coerce q_half = Inr ()" for coerce
    by (simp add: validateQuestion_def requiredFields_def options_not_four_def
        correct_out_of_range_def less_than_def greater_than_def ToNumber_def array_includes_def
        validLevels_def validCategories_def h)
  have 1: "new_QuestionService coerce (Parsed (JObj [(''questions'', JArr [q_null])])) = Inr (JArr [q_null])"
    for coerce
    by (simp add: new_QuestionService_def loadQuestions_def questions_or_empty_def get_member_def
        validateQuestions_def iterate_def vn)
  have 2: "\<not> rule_correct_index q_null"
    by (simp add: rule_correct_index_def m)
  have 3: "new_QuestionService coerce (Parsed (JObj [(''questions'', JArr [q_half])])) = Inr (JArr [q_half])"
    for coerce
    by (simp add: new_QuestionService_def loadQuestions_def questions_or_empty_def get_member_def
        validateQuestions_def iterate_def vh)
  have 4: "\<not> rule_correct_index q_half"
    by (simp add: rule_correct_index_def h)
  have b: "get_member (question_json q_bad) ''id'' = Some (json_int 2)"
    "get_member (question_json q_bad) ''level'' = Some (JStr ''C1'')"
    "get_member (question_json q_bad) ''correct'' = Some (json_int 1)"
    "get_member (question_json q_bad) ''text'' \<noteq> None"
    "get_member (question_json q_bad) ''category'' \<noteq> None"
    "get_member (question_json q_bad) ''options'' = Some (JArr [JStr ''go'', JStr ''goes'', JStr ''going'', JStr ''went''])"
    "question_json q_bad \<noteq> JNull"
    by (simp_all add: get_member_question_json q_bad_def q_demo_def) (simp add: question_json_def)
  have vb: "validateQuestion coerce (question_json q_bad)
      = Inl (BadLevel (Some (json_int 2)) (Some (JStr ''C1'')))" for coerce
    using b by (simp add: validateQuestion_def requiredFields_def options_not_four_def
        correct_out_of_range_def less_than_def greater_than_def ToNumber_def array_includes_def
        validLevels_def json_int_def)
  have 5: "reloadQuestions coerce (bank_json [q_demo]) (Parsed (file_json [q_demo, q_bad]))
       = (bank_json [q_demo, q_bad],
          Inl (LoadFailed (BadLevel (Some (json_int 2)) (Some (JStr ''C1'')))))" for coerce
    by (simp add: reloadQuestions_def loadQuestions_array [OF get_member_file_json] bank_json_def
        validateQuestion_valid [OF spec_valid_q_demo] vb)
  have 6: "\<not> spec_valid_question (question_json q_bad)"
    by (simp add: spec_valid_question_def rule_level_def b)
  have z: "get_member (question_json q_zero) ''id'' = Some (json_int 0)"
    "get_member (question_json q_zero) ''text'' = None"
    "question_json q_zero \<noteq> JNull"
    by (simp_all add: get_member_question_json q_zero_def q_demo_def) (simp add: question_json_def)
  have 7: "validateQuestions coerce (bank_json [q_zero]) = Inl (MissingField None ''text'')" for coerce
    using z by (simp add: validateQuestions_def iterate_def bank_json_def validateQuestion_def
        requiredFields_def id_or_unknown_def json_int_def)
  have 8: "q_id q_zero = Some 0"
    by (simp add: q_zero_def)
  from 1 2 3 4 5 6 7 8 m(4) show ?thesis
    by simp
qed

text \<open>
  X2. For a bank in which every \<open>correct\<close> field is a number with an integral value,
  validation succeeds exactly if every question satisfies the five rules, and so does
  \<open>loadQuestions\<close>. At a bank with a violation the error is that of the first offending
  question in the order of the bank, it is passed on by \<open>loadQuestions\<close> and by the
  constructor, which then yields no service, and it names the id of that question if
  the id is present and not falsy.
\<close>

theorem load_validates_integral_banks:
  assumes "\<forall>q \<in> set qs. integral_index q"
    and "get_member parsed ''questions'' = Some (JArr qs)"
  shows "(validateQuestions coerce (JArr qs) = Inr () \<longleftrightarrow> (\<forall>q \<in> set qs. spec_valid_question q))
   \<and> (snd (loadQuestions coerce this_questions (Parsed parsed)) = Inr ()
         \<longleftrightarrow> (\<forall>q \<in> set qs. spec_valid_question q))
   \<and> ((\<forall>q \<in> set qs. spec_valid_question q) \<longrightarrow>
         new_QuestionService coerce (Parsed parsed) = Inr (JArr qs))
   \<and> (\<forall>q. find (\<lambda>q. \<not> spec_valid_question q) qs = Some q \<longrightarrow>
         (\<exists>err. validateQuestion coerce q = Inl err
              \<and> validateQuestions coerce (JArr qs) = Inl err
              \<and> snd (loadQuestions coerce this_questions (Parsed parsed)) = Inl (LoadFailed err)
              \<and> new_QuestionService coerce (Parsed parsed) = Inl (LoadFailed err)
              \<and> (\<forall>i. get_member q ''id'' = Some i \<and> truthy i \<longrightarrow>
                     named_id (LoadFailed err) = Some i)))"
proof -
  have v: "validateQuestions coerce (JArr qs) = validateQuestions_loop coerce qs"
    by (simp add: validateQuestions_def iterate_def)
  have a: "validateQuestions coerce (JArr qs) = Inr () \<longleftrightarrow> (\<forall>q \<in> set qs. spec_valid_question q)"
    by (simp only: v validateQuestions_loop_ok [OF assms(1)])
  have b: "snd (loadQuestions coerce this_questions (Parsed parsed)) = Inr ()
      \<longleftrightarrow> validateQuestions_loop coerce qs = Inr ()"
    by (simp add: loadQuestions_array [OF assms(2)] split: sum.splits)
  have c: "new_QuestionService coerce (Parsed parsed) = Inr (JArr qs)"
    if "\<forall>q \<in> set qs. spec_valid_question q"
    using that by (simp add: new_QuestionService_def loadQuestions_array [OF assms(2)]
        validateQuestions_loop_valid)
  have d: "\<exists>err. validateQuestion coerce q = Inl err
              \<and> validateQuestions coerce (JArr qs) = Inl err
              \<and> snd (loadQuestions coerce this_questions (Parsed parsed)) = Inl (LoadFailed err)
              \<and> new_QuestionService coerce (Parsed parsed) = Inl (LoadFailed err)
              \<and> (\<forall>i. get_member q ''id'' = Some i \<and> truthy i \<longrightarrow>
                     named_id (LoadFailed err) = Some i)"
    if f: "find (\<lambda>q. \<not> spec_valid_question q) qs = Some q" for q
  proof -
    from f have nv: "\<not> spec_valid_question q" and m: "q \<in> set qs"
      by (auto simp: find_Some_iff)
    from m assms(1) have i: "integral_index q"
      by simp
    from validateQuestion_invalid [OF i nv, of coerce] obtain err
      where e: "validateQuestion coerce q = Inl err"
        and n: "\<forall>i. get_member q ''id'' = Some i \<and> truthy i \<longrightarrow> named_id err = Some i"
      by auto
    from f e have l: "validateQuestions_loop coerce qs = Inl err"
      by (simp add: validateQuestions_loop_find [OF assms(1)])
    from l have 1: "validateQuestions coerce (JArr qs) = Inl err"
      by (simp add: v)
    from l have 2: "snd (loadQuestions coerce this_questions (Parsed parsed)) = Inl (LoadFailed err)"
      by (simp add: loadQuestions_array [OF assms(2)])
    from l have 3: "new_QuestionService coerce (Parsed parsed) = Inl (LoadFailed err)"
      by (simp add: new_QuestionService_def loadQuestions_array [OF assms(2)])
    from n have "\<forall>i. get_member q ''id'' = Some i \<and> truthy i \<longrightarrow> named_id (LoadFailed err) = Some i"
      by simp
    with e 1 2 3 show ?thesis by blast
  qed
  from a b c d show ?thesis
    by (simp only: validateQuestions_loop_ok [OF assms(1)]) blast
qed

theorem load_validates_integral_banks_witness:
  "new_QuestionService (\<lambda>v. Inr NaN) (Parsed (file_json [q_demo])) = Inr (bank_json [q_demo])
   \<and> validateQuestions (\<lambda>v. Inr NaN) (bank_json [q_demo, q_bad])
       = Inl (BadLevel (Some (json_int 2)) (Some (JStr ''C1'')))
   \<and> new_QuestionService (\<lambda>v. Inr NaN) (Parsed (file_json [q_demo, q_bad]))
       = Inl (LoadFailed (BadLevel (Some (json_int 2)) (Some (JStr ''C1''))))
   \<and> named_id (LoadFailed (BadLevel (Some (json_int 2)) (Some (JStr ''C1''))))
       = get_member (question_json q_bad) ''id''"
proof -
  let ?c = "\<lambda>v. Inr NaN :: error + number"
  have v: "spec_valid_question (question_json q_demo)"
    by (rule spec_valid_q_demo)
  have b: "get_member (question_json q_bad) ''id'' = Some (json_int 2)"
    "get_member (question_json q_bad) ''level'' = Some (JStr ''C1'')"
    "get_member (question_json q_bad) ''correct'' = Some (json_int 1)"
    "get_member (question_json q_bad) ''text'' \<noteq> None"
    "get_member (question_json q_bad) ''category'' \<noteq> None"
    "get_member (question_json q_bad) ''options'' = Some (JArr [JStr ''go'', JStr ''goes'', JStr ''going'', JStr ''went''])"
    "question_json q_bad \<noteq> JNull"
    by (simp_all add: get_member_question_json q_bad_def q_demo_def) (simp add: question_json_def)
  have nv: "\<not> spec_valid_question (question_json q_bad)"
    by (simp add: spec_valid_question_def rule_level_def b)
  have f: "find (\<lambda>q. \<not> spec_valid_question q) [question_json q_demo, question_json q_bad]
      = Some (question_json q_bad)"
    using v nv by simp
  have e: "validateQuestion ?c (question_json q_bad)
      = Inl (BadLevel (Some (json_int 2)) (Some (JStr ''C1'')))"
    using b by (simp add: validateQuestion_def requiredFields_def options_not_four_def
        correct_out_of_range_def less_than_def greater_than_def ToNumber_def array_includes_def
        validLevels_def json_int_def)
  have i1: "\<forall>q \<in> set [question_json q_demo]. integral_index q"
    and i2: "\<forall>q \<in> set [question_json q_demo, question_json q_bad]. integral_index q"
    by (simp_all add: integral_index_question_json)
  have g1: "get_member (file_json [q_demo]) ''questions'' = Some (JArr [question_json q_demo])"
    and g2: "get_member (file_json [q_demo, q_bad]) ''questions''
        = Some (JArr [question_json q_demo, question_json q_bad])"
    by (simp_all add: get_member_file_json)
  from load_validates_integral_banks [OF i1 g1, of ?c "JArr []"] v
  have 1: "new_QuestionService ?c (Parsed (file_json [q_demo])) = Inr (bank_json [q_demo])"
    by (simp add: bank_json_def)
  from load_validates_integral_banks [OF i2 g2, of ?c "JArr []"] f e
  have 2: "validateQuestions ?c (bank_json [q_demo, q_bad])
       = Inl (BadLevel (Some (json_int 2)) (Some (JStr ''C1'')))"
    and 3: "new_QuestionService ?c (Parsed (file_json [q_demo, q_bad]))
       = Inl (LoadFailed (BadLevel (Some (json_int 2)) (Some (JStr ''C1''))))"
    by (auto simp: bank_json_def)
  have 4: "named_id (LoadFailed (BadLevel (Some (json_int 2)) (Some (JStr ''C1''))))
       = get_member (question_json q_bad) ''id''"
    by (simp add: b)
  from 1 2 3 4 show ?thesis by simp
qed

section \<open>Answering twice\<close>

lemma or_one_idem: "or_one (Some (or_one w)) = or_one w"
  by (simp add: or_one_def split: option.splits)

lemma checkAnswer_weight: "checkAnswer svc i sel = Inr res \<Longrightarrow> or_one (Some (cr_weight res)) = cr_weight res"
  by (auto simp: checkAnswer_def or_one_idem split: option.splits)

text \<open>The session after an accepted answer.\<close>

lemma handleAnswer_accepted:
  assumes "getSession c uid = Some s" and "state s = ''in_progress''"
    and "currentQuestion s < length (questions s)"
    and "q_id (questions s ! currentQuestion s) = Some qid"
    and "checkAnswer (e_questionService e) qid sel = Inr res"
  shows "handleAnswer e c now uid qid sel =
     (let c1 = c(uid \<mapsto> with_answer s qid sel res now);
          feedback = Feedback (cr_isCorrect res) (if cr_isCorrect res then None else cr_correctOption res)
      in if Suc (currentQuestion s) < length (questions s)
         then (c1, Inr [feedback, QuestionSent (questions s ! Suc (currentQuestion s))])
         else (case completeTest e c1 now uid of (c2, outs) \<Rightarrow> (c2, Inr (feedback # outs))))"
  using assms checkAnswer_weight [OF assms(5)]
  by (auto simp: handleAnswer_def recordAnswer_def getSession_def isTestComplete_def sendQuestion_def
      with_answer_def Let_def split: prod.splits)


lemma completeTest_cache:
  "getSession c uid = Some s \<Longrightarrow>
   completeTest e c now uid =
     (c(uid \<mapsto> snd (createSession c now uid (username s))),
      [CompletionMessage, Results (calculateAssessment (e_assessmentConfig e) now s (questions s))]
        @ (if e_monitoring e then [Forwarded (calculateAssessment (e_assessmentConfig e) now s (questions s))] else [])
        @ [RestartOffer])"
  by (simp add: completeTest_def completeSession_def updateSession_def clearSession_def
      createSession_def getSession_def Let_def)

lemma checkAnswer_demo:
  "checkAnswer (e_questionService env_demo) 1 1 =
     Inr \<lparr>cr_isCorrect = True, cr_correctAnswer = Some 1, cr_correctOption = Some ''goes'',
          cr_selectedOption = 1, cr_weight = 1\<rparr>"
  by (simp add: env_demo_def checkAnswer_def getQuestionById_def q_demo_def option_at_def or_one_def)


text \<open>
  Where the question after the current one has the same id, the second of two equal
  answer events is accepted as the answer to it: in a session on two questions of id
  1 and a third, both taken from a bank that passes validation, two events for
  question 1 leave two answer records, the score 2 and the cursor 2.
\<close>

theorem double_submission_counted_twice:
  "map_option (\<lambda>s. (length (answers s), score s, currentQuestion s))
     (fst (handleAnswer env_demo (fst (handleAnswer env_demo [7 \<mapsto> s_twins] 5 7 1 1)) 6 7 1 1) 7)
   = Some (2, 2, 2)
   \<and> (\<forall>coerce. validateQuestions coerce (bank_json (svc_questions (e_questionService env_demo))) = Inr ())"
proof -
  have a: "handleAnswer env_demo [7 \<mapsto> s_twins] 5 7 1 1 =
      ([7 \<mapsto> with_answer s_twins 1 1 \<lparr>cr_isCorrect = True, cr_correctAnswer = Some 1,
              cr_correctOption = Some ''goes'', cr_selectedOption = 1, cr_weight = 1\<rparr> 5],
       Inr [Feedback True None, QuestionSent q_twin])"
    by (subst handleAnswer_accepted [OF _ _ _ _ checkAnswer_demo, where s = s_twins])
       (simp_all add: getSession_def s_twins_def s_demo_def q_demo_def Let_def)
  let ?s1 = "with_answer s_twins 1 1 \<lparr>cr_isCorrect = True, cr_correctAnswer = Some 1,
              cr_correctOption = Some ''goes'', cr_selectedOption = 1, cr_weight = 1\<rparr> 5"
  have b: "handleAnswer env_demo [7 \<mapsto> ?s1] 6 7 1 1 =
      ([7 \<mapsto> with_answer ?s1 1 1 \<lparr>cr_isCorrect = True, cr_correctAnswer = Some 1,
              cr_correctOption = Some ''goes'', cr_selectedOption = 1, cr_weight = 1\<rparr> 6],
       Inr [Feedback True None, QuestionSent q_third])"
    by (subst handleAnswer_accepted [OF _ _ _ _ checkAnswer_demo, where s = ?s1])
       (simp_all add: getSession_def with_answer_def s_twins_def s_demo_def q_demo_def q_twin_def Let_def)
  have "spec_valid_question (question_json q_twin)" "spec_valid_question (question_json q_third)"
    by (simp_all add: spec_valid_question_def rule_required_fields_def rule_four_options_def
        rule_correct_index_def rule_level_def rule_category_def get_member_question_json
        json_int_def q_demo_def q_twin_def q_third_def)
  then have v: "validateQuestions coerce (bank_json (svc_questions (e_questionService env_demo))) = Inr ()"
    for coerce
    by (simp add: env_demo_def validateQuestions_valid_bank spec_valid_q_demo)
  from a b v show ?thesis
    by (simp add: with_answer_def s_twins_def s_demo_def)
qed

text \<open>
  C8. In a session in progress whose current question has the id of the event, is
  known to the question service and is not followed by a question of the same id,
  two equal answer events handled one after the other count once. The first appends
  one record, advances the cursor and adds the weight to the score if the answer is
  correct; if it answered the last question, the assessment is computed from the
  session with that one record and a fresh session in state \<open>ready\<close> replaces it.
  The second is rejected and leaves the cache as the first left it: as an invalid
  answer, since its id is not that of the question now current, or, after the last
  question, for want of a test in progress.
\<close>

theorem double_submission_counted_once:
  assumes s: "getSession c uid = Some s" and p: "state s = ''in_progress''"
    and i: "currentQuestion s < length (questions s)"
    and q: "q_id (questions s ! currentQuestion s) = Some qid"
    and k: "checkAnswer (e_questionService e) qid sel = Inr res"
    and d: "Suc (currentQuestion s) < length (questions s) \<longrightarrow>
            q_id (questions s ! Suc (currentQuestion s)) \<noteq> Some qid"
  shows "(case handleAnswer e c now uid qid sel of
            (c1, r1) \<Rightarrow>
              (case handleAnswer e c1 now' uid qid sel of
                 (c2, r2) \<Rightarrow>
                    c2 = c1 \<and> (r2 = Inr [InvalidAnswer] \<or> r2 = Inr [NoActiveTest])
                  \<and> (Suc (currentQuestion s) < length (questions s) \<longrightarrow>
                        c1 = c(uid \<mapsto> with_answer s qid sel res now))
                  \<and> (Suc (currentQuestion s) = length (questions s) \<longrightarrow>
                        c1 = c(uid \<mapsto> snd (createSession c now uid (username s)))
                      \<and> (\<exists>fb outs. r1 = Inr (fb # CompletionMessage
                            # Results (calculateAssessment (e_assessmentConfig e) now
                                 (with_answer s qid sel res now) (questions s)) # outs)))))"
proof (cases "Suc (currentQuestion s) < length (questions s)")
  case True
  let ?s1 = "with_answer s qid sel res now"
  have 1: "handleAnswer e c now uid qid sel =
      (c(uid \<mapsto> ?s1), Inr [Feedback (cr_isCorrect res) (if cr_isCorrect res then None else cr_correctOption res),
                            QuestionSent (questions s ! Suc (currentQuestion s))])"
    using True by (simp add: handleAnswer_accepted [OF s p i q k] Let_def)
  have 2: "handleAnswer e (c(uid \<mapsto> ?s1)) now' uid qid sel = (c(uid \<mapsto> ?s1), Inr [InvalidAnswer])"
    using True d p by (simp add: handleAnswer_def getSession_def with_answer_def)
  from True 1 2 show ?thesis by simp
next
  case False
  with i have last: "Suc (currentQuestion s) = length (questions s)" by simp
  let ?s1 = "with_answer s qid sel res now"
  let ?c1 = "c(uid \<mapsto> ?s1)"
  let ?f = "snd (createSession c now uid (username s))"
  have g: "getSession ?c1 uid = Some ?s1" by (simp add: getSession_def)
  have u: "username ?s1 = username s" and qs: "questions ?s1 = questions s"
    by (simp_all add: with_answer_def)
  have f: "snd (createSession ?c1 now uid (username s)) = ?f"
    by (simp add: createSession_def Let_def)
  have 1: "handleAnswer e c now uid qid sel =
      (c(uid \<mapsto> ?f),
       Inr (Feedback (cr_isCorrect res) (if cr_isCorrect res then None else cr_correctOption res)
            # [CompletionMessage, Results (calculateAssessment (e_assessmentConfig e) now ?s1 (questions s))]
            @ (if e_monitoring e then [Forwarded (calculateAssessment (e_assessmentConfig e) now ?s1 (questions s))] else [])
            @ [RestartOffer]))"
    using False by (simp add: handleAnswer_accepted [OF s p i q k] Let_def completeTest_cache [OF g] u qs f)
  have 2: "handleAnswer e (c(uid \<mapsto> ?f)) now' uid qid sel = (c(uid \<mapsto> ?f), Inr [NoActiveTest])"
    by (simp add: handleAnswer_def getSession_def createSession_def Let_def)
  from last 1 2 show ?thesis by simp
qed



theorem double_submission_counted_once_witness:
  "fst (handleAnswer env_demo (fst (handleAnswer env_demo [7 \<mapsto> s_distinct] 5 7 1 1)) 6 7 1 1)
     = [7 \<mapsto> s_distinct\<lparr>answers := [\<lparr>r_questionId = 1, r_selectedOption = 1, r_isCorrect = True,
                                         r_timestamp = 5\<rparr>],
                          currentQuestion := 1, score := 1\<rparr>]
   \<and> snd (handleAnswer env_demo (fst (handleAnswer env_demo [7 \<mapsto> s_distinct] 5 7 1 1)) 6 7 1 1)
     = Inr [InvalidAnswer]"
proof -
  have s: "getSession [7 \<mapsto> s_distinct] 7 = Some s_distinct"
    by (simp add: getSession_def)
  have p: "state s_distinct = ''in_progress''"
    by (simp add: s_distinct_def s_demo_def)
  have i: "currentQuestion s_distinct < length (questions s_distinct)"
    by (simp add: s_distinct_def s_demo_def)
  have q: "q_id (questions s_distinct ! currentQuestion s_distinct) = Some 1"
    by (simp add: s_distinct_def s_demo_def q_demo_def)
  have d: "Suc (currentQuestion s_distinct) < length (questions s_distinct) \<longrightarrow>
            q_id (questions s_distinct ! Suc (currentQuestion s_distinct)) \<noteq> Some 1"
    by (simp add: s_distinct_def s_demo_def q_third_def)
  have n: "Suc (currentQuestion s_distinct) < length (questions s_distinct)"
    by (simp add: s_distinct_def s_demo_def)
  have w: "with_answer s_distinct 1 1 \<lparr>cr_isCorrect = True, cr_correctAnswer = Some 1,
              cr_correctOption = Some ''goes'', cr_selectedOption = 1, cr_weight = 1\<rparr> 5
           = s_distinct\<lparr>answers := [\<lparr>r_questionId = 1, r_selectedOption = 1, r_isCorrect = True,
                                       r_timestamp = 5\<rparr>],
                        currentQuestion := 1, score := 1\<rparr>"
    by (simp add: with_answer_def s_distinct_def s_demo_def)
  have r: "snd (handleAnswer env_demo [7 \<mapsto> s_distinct\<lparr>answers := [\<lparr>r_questionId = 1, r_selectedOption = 1, r_isCorrect = True,
                                       r_timestamp = 5\<rparr>],
                        currentQuestion := 1, score := 1\<rparr>] 6 7 1 1) = Inr [InvalidAnswer]"
    by (simp add: handleAnswer_def getSession_def s_distinct_def s_demo_def q_third_def)
  from double_submission_counted_once [OF s p i q checkAnswer_demo d, of 5 6] n w r
  show ?thesis
    by (auto split: prod.splits)
qed


section \<open>Selecting the questions of a test\<close>

text \<open>A shuffle permutes its array, whatever the random source draws.\<close>

lemma fair_shift: "fair rnd \<Longrightarrow> fair (\<lambda>k. rnd (Suc k))"
  by (simp add: fair_def)

lemma fair_draw:
  assumes "fair rnd"
  shows "rnd 0 (Suc (Suc i)) \<le> Suc i"
proof -
  from assms have "rnd 0 (Suc (Suc i)) < Suc (Suc i)"
    by (simp add: fair_def)
  then show ?thesis by simp
qed

lemma shuffle_loop_mset:
  "fair rnd \<Longrightarrow> i < length xs \<Longrightarrow> mset (fst (shuffle_loop i xs rnd)) = mset xs"
proof (induction i arbitrary: xs rnd)
  case 0
  show ?case by simp
next
  case (Suc i)
  let ?j = "rnd 0 (Suc i + 1)"
  let ?ys = "xs[Suc i := xs ! ?j, ?j := xs ! Suc i]"
  from Suc.prems have j: "?j < length xs"
    using fair_draw [of rnd i] by simp
  have f: "fair (\<lambda>k. rnd (Suc k))"
    using Suc.prems(1) by (rule fair_shift)
  have l: "i < length ?ys"
    using Suc.prems(2) by simp
  have "mset (fst (shuffle_loop i ?ys (\<lambda>k. rnd (Suc k)))) = mset ?ys"
    using f l by (rule Suc.IH)
  also have "mset ?ys = mset xs"
    using j Suc.prems(2) by (rule mset_swap)
  finally show ?case by (simp add: Let_def)
qed


lemma shuffle_loop_fair: "fair rnd \<Longrightarrow> fair (snd (shuffle_loop i xs rnd))"
proof (induction i arbitrary: xs rnd)
  case 0
  then show ?case by simp
next
  case (Suc i)
  from Suc.prems have "fair (\<lambda>k. rnd (Suc k))" by (rule fair_shift)
  then show ?case by (simp add: Let_def Suc.IH)
qed

lemma shuffleArray_mset: "fair rnd \<Longrightarrow> mset (fst (shuffleArray xs rnd)) = mset xs"
proof (cases xs)
  case Nil
  then show ?thesis by (simp add: shuffleArray_def)
next
  case (Cons x ys)
  assume "fair rnd"
  then show ?thesis
    unfolding shuffleArray_def by (rule shuffle_loop_mset) (simp add: Cons)
qed

lemma shuffleArray_fair: "fair rnd \<Longrightarrow> fair (snd (shuffleArray xs rnd))"
  by (simp add: shuffleArray_def shuffle_loop_fair)

lemma mset_take_subseteq: "mset (take n xs) \<subseteq># mset xs"
proof -
  have "mset xs = mset (take n xs) + mset (drop n xs)"
    by (simp flip: mset_append)
  then show ?thesis by simp
qed

lemma mset_slice0_subseteq: "mset (slice0 xs n) \<subseteq># mset xs"
  by (simp add: slice0_def mset_take_subseteq)


lemma select_levels_picks:
  "fair rnd \<Longrightarrow>
   \<exists>picks. fst (select_levels svc entries sel rnd) = sel @ concat picks
          \<and> list_all2 (pick_ok svc) entries picks
          \<and> fair (snd (select_levels svc entries sel rnd))"
proof (induction entries arbitrary: sel rnd)
  case Nil
  then show ?case by simp
next
  case (Cons en entries)
  obtain l n where en: "en = (l, n)" by (cases en)
  obtain sh rnd' where sh: "shuffleArray (getQuestionsByLevel svc l) rnd = (sh, rnd')"
    by (cases "shuffleArray (getQuestionsByLevel svc l) rnd")
  from Cons.prems sh have f': "fair rnd'"
    using shuffleArray_fair [of rnd "getQuestionsByLevel svc l"] by simp
  from Cons.prems sh have m: "mset sh = mset (getQuestionsByLevel svc l)"
    using shuffleArray_mset [of rnd "getQuestionsByLevel svc l"] by simp
  then have "size (mset sh) = size (mset (getQuestionsByLevel svc l))"
    by simp
  then have len: "length sh = length (getQuestionsByLevel svc l)"
    by simp
  have "mset (slice0 sh n) \<subseteq># mset (getQuestionsByLevel svc l)"
    using mset_slice0_subseteq [of sh n] m by simp
  moreover have "length (slice0 sh n) = nat n"
    if "0 \<le> n" and "nat n \<le> length (getQuestionsByLevel svc l)"
    using that len by (simp add: slice0_def)
  ultimately have p: "pick_ok svc en (slice0 sh n)"
    by (simp add: pick_ok_def en)
  from Cons.IH [OF f', of "sel @ slice0 sh n"]
  obtain picks where
    r: "fst (select_levels svc entries (sel @ slice0 sh n) rnd') = (sel @ slice0 sh n) @ concat picks"
    and a: "list_all2 (pick_ok svc) entries picks"
    and f: "fair (snd (select_levels svc entries (sel @ slice0 sh n) rnd'))"
    by blast
  have "fst (select_levels svc (en # entries) sel rnd) = sel @ concat (slice0 sh n # picks)"
    using r by (simp add: en sh)
  moreover have "list_all2 (pick_ok svc) (en # entries) (slice0 sh n # picks)"
    using p a by simp
  moreover have "fair (snd (select_levels svc (en # entries) sel rnd))"
    using f by (simp add: en sh)
  ultimately show ?case by blast
qed


lemma pick_level:
  assumes "mset p \<subseteq># mset (getQuestionsByLevel svc l)" and "q \<in> set p"
  shows "q_level q = Some l"
proof -
  from assms(1) have "set_mset (mset p) \<subseteq> set_mset (mset (getQuestionsByLevel svc l))"
    by (rule set_mset_mono)
  with assms(2) have "q \<in> set (getQuestionsByLevel svc l)"
    by auto
  then show ?thesis by (simp add: getQuestionsByLevel_def)
qed

lemma pick_filter:
  assumes "mset p \<subseteq># mset (getQuestionsByLevel svc l)"
  shows "filter (\<lambda>q. q_level q = Some l') p = (if l' = l then p else [])"
proof (cases "l' = l")
  case True
  have "filter (\<lambda>q. q_level q = Some l) p = p"
    using pick_level [OF assms] by (simp add: filter_id_conv)
  with True show ?thesis by simp
next
  case False
  have "filter (\<lambda>q. q_level q = Some l') p = []"
    using pick_level [OF assms] False by (auto simp: filter_empty_conv)
  with False show ?thesis by simp
qed

lemma distinct_submultiset:
  assumes "mset ys \<subseteq># mset xs" and "distinct xs"
  shows "distinct ys"
proof -
  have "count (mset ys) a = (if a \<in> set ys then 1 else 0)" for a
  proof (cases "a \<in> set ys")
    case True
    have "count (mset ys) a \<le> count (mset xs) a"
      using assms(1) by (rule mset_subset_eq_count)
    also have "\<dots> \<le> 1"
      using assms(2) by (simp add: distinct_count_atmost_1)
    finally have "count (mset ys) a \<le> 1" .
    moreover have "0 < count (mset ys) a"
      using True by (rule count_mset_gt_0)
    ultimately have "count (mset ys) a = 1" by linarith
    with True show ?thesis by simp
  next
    case False
    then show ?thesis by simp
  qed
  then show ?thesis
    by (simp add: distinct_count_atmost_1)
qed

lemma levels_submultiset:
  "mset (getQuestionsByLevel svc ''A1'') + mset (getQuestionsByLevel svc ''A2'')
     + mset (getQuestionsByLevel svc ''B1'') + mset (getQuestionsByLevel svc ''B2'')
   \<subseteq># mset (svc_questions svc)"
  by (rule mset_subset_eqI) (simp add: getQuestionsByLevel_def)

lemma select_twenty_pure:
  assumes fair: "fair rnd"
    and per: "tc_questionsPerLevel cfg = None"
    and total: "tc_totalQuestions cfg = None \<or> tc_totalQuestions cfg = Some 20"
    and enough: "\<forall>l \<in> set [''A1'', ''A2'', ''B1'', ''B2'']. 5 \<le> length (getQuestionsByLevel svc l)"
    and ids: "distinct (map q_id (svc_questions svc))"
  shows "(case selectQuestionsForTest svc cfg rnd of
            (r, rnd') \<Rightarrow>
               length r = 20
             \<and> distinct (map q_id r)
             \<and> (\<forall>l \<in> set [''A1'', ''A2'', ''B1'', ''B2''].
                   length (filter (\<lambda>q. q_level q = Some l) r) = 5)
             \<and> mset r \<subseteq># mset (svc_questions svc)
             \<and> fair rnd')"
proof -
  let ?entries = "[(''A1'', 5::int), (''A2'', 5), (''B1'', 5), (''B2'', 5)]"
  obtain sel rnd1 where sl: "select_levels svc ?entries [] rnd = (sel, rnd1)"
    by (cases "select_levels svc ?entries [] rnd")
  obtain r rnd2 where sh: "shuffleArray sel rnd1 = (r, rnd2)"
    by (cases "shuffleArray sel rnd1")
  have "level_entries cfg = ?entries"
    using per total by (auto simp: level_entries_def Let_def)
  then have res: "selectQuestionsForTest svc cfg rnd = (r, rnd2)"
    using sl sh by (simp add: selectQuestionsForTest_def)
  from select_levels_picks [OF fair, of svc ?entries "[]"] sl
  obtain picks where c: "sel = concat picks"
    and a: "list_all2 (pick_ok svc) ?entries picks" and f1: "fair rnd1"
    by auto
  from a obtain p1 p2 p3 p4 where picks: "picks = [p1, p2, p3, p4]"
    and k1: "pick_ok svc (''A1'', 5) p1" and k2: "pick_ok svc (''A2'', 5) p2"
    and k3: "pick_ok svc (''B1'', 5) p3" and k4: "pick_ok svc (''B2'', 5) p4"
    by (auto simp: list_all2_Cons1)
  from k1 k2 k3 k4 enough
  have l1: "length p1 = 5" and l2: "length p2 = 5" and l3: "length p3 = 5" and l4: "length p4 = 5"
    by (simp_all add: pick_ok_def)
  from k1 k2 k3 k4
  have m1: "mset p1 \<subseteq># mset (getQuestionsByLevel svc ''A1'')"
    and m2: "mset p2 \<subseteq># mset (getQuestionsByLevel svc ''A2'')"
    and m3: "mset p3 \<subseteq># mset (getQuestionsByLevel svc ''B1'')"
    and m4: "mset p4 \<subseteq># mset (getQuestionsByLevel svc ''B2'')"
    by (simp_all add: pick_ok_def)
  have sel: "sel = p1 @ p2 @ p3 @ p4"
    using c picks by simp
  have mr: "mset r = mset sel"
    using shuffleArray_mset [OF f1, of sel] sh by simp
  have f2: "fair rnd2"
    using shuffleArray_fair [OF f1, of sel] sh by simp
  have "size (mset r) = size (mset sel)"
    using mr by simp
  then have len: "length r = 20"
    using l1 l2 l3 l4 by (simp add: sel)
  have "mset sel \<subseteq># mset (getQuestionsByLevel svc ''A1'') + mset (getQuestionsByLevel svc ''A2'')
     + mset (getQuestionsByLevel svc ''B1'') + mset (getQuestionsByLevel svc ''B2'')"
    unfolding sel mset_append using m1 m2 m3 m4
    by (simp add: subset_mset.add_mono add.assoc)
  then have "mset sel \<subseteq># mset (svc_questions svc)"
    using levels_submultiset [of svc] by (rule subset_mset.order_trans)
  with mr have sub: "mset r \<subseteq># mset (svc_questions svc)"
    by simp
  then have "image_mset q_id (mset r) \<subseteq># image_mset q_id (mset (svc_questions svc))"
    by (rule image_mset_subseteq_mono)
  then have "mset (map q_id r) \<subseteq># mset (map q_id (svc_questions svc))"
    by simp
  then have dist: "distinct (map q_id r)"
    using ids by (rule distinct_submultiset)
  have lev: "length (filter (\<lambda>q. q_level q = Some l) r) = 5"
    if "l \<in> set [''A1'', ''A2'', ''B1'', ''B2'']" for l
  proof -
    have "length (filter (\<lambda>q. q_level q = Some l) r) = size (filter_mset (\<lambda>q. q_level q = Some l) (mset r))"
      by (simp flip: mset_filter)
    also have "\<dots> = size (mset (filter (\<lambda>q. q_level q = Some l) sel))"
      by (simp add: mr)
    also have "\<dots> = 5"
      using that l1 l2 l3 l4
      by (auto simp add: sel pick_filter [OF m1] pick_filter [OF m2] pick_filter [OF m3] pick_filter [OF m4]
               simp del: mset_filter)
    finally show ?thesis .
  qed
  from len dist lev sub f2 show ?thesis
    by (simp add: res)
qed


text \<open>
  The functions on the heap compute the lists of the functions on values, in arrays
  allocated during the call; no array that was there before the call is written.
\<close>

lemma shuffle_loop_at_eq:
  "shuffled < length h \<Longrightarrow>
   shuffle_loop_at i shuffled h rnd =
     (h[shuffled := fst (shuffle_loop i (h ! shuffled) rnd)], snd (shuffle_loop i (h ! shuffled) rnd))"
proof (induction i arbitrary: h rnd)
  case 0
  then show ?case by simp
next
  case (Suc i)
  let ?j = "rnd 0 (Suc i + 1)"
  let ?c = "(h ! shuffled)[Suc i := h ! shuffled ! ?j, ?j := h ! shuffled ! Suc i]"
  have "shuffled < length (h[shuffled := ?c])"
    using Suc.prems by simp
  from Suc.IH [OF this, of "\<lambda>k. rnd (Suc k)"] Suc.prems
  show ?case by (simp add: Let_def)
qed

lemma shuffleArray_at_eq:
  assumes "array < length h"
  shows "shuffleArray_at array h rnd =
     ((h @ [fst (shuffleArray (h ! array) rnd)], length h), snd (shuffleArray (h ! array) rnd))"
proof -
  have "length h < length (h @ [h ! array])" by simp
  from shuffle_loop_at_eq [OF this, of "length (h ! array) - 1" rnd]
  show ?thesis
    by (simp add: shuffleArray_at_def alloc_def shuffleArray_def)
qed

lemma select_levels_at_eq:
  assumes "qa < length h" and "sel < length h" and "qa \<noteq> sel"
  shows "\<exists>h'. select_levels_at qa entries sel h rnd =
                (h', snd (select_levels \<lparr>svc_questions = h ! qa\<rparr> entries (h ! sel) rnd))
             \<and> length h \<le> length h'
             \<and> h' ! sel = fst (select_levels \<lparr>svc_questions = h ! qa\<rparr> entries (h ! sel) rnd)
             \<and> (\<forall>a < length h. a \<noteq> sel \<longrightarrow> h' ! a = h ! a)"
  using assms
proof (induction entries arbitrary: h rnd)
  case Nil
  then show ?case by simp
next
  case (Cons en entries)
  obtain l n where en: "en = (l, n)" by (cases en)
  let ?svc = "\<lparr>svc_questions = h ! qa\<rparr>"
  let ?F = "getQuestionsByLevel ?svc l"
  let ?S = "fst (shuffleArray ?F rnd)"
  let ?rnd1 = "snd (shuffleArray ?F rnd)"
  let ?hs = "(h[sel := h ! sel @ slice0 ?S n]) @ [?F, ?S, slice0 ?S n]"
  have g: "getQuestionsByLevel_at qa h l = (h @ [?F], length h)"
    by (simp add: getQuestionsByLevel_at_def getQuestionsByLevel_def alloc_def)
  have sh: "shuffleArray_at (length h) (h @ [?F]) rnd = ((h @ [?F] @ [?S], Suc (length h)), ?rnd1)"
    by (simp add: shuffleArray_at_eq)
  have al: "alloc (h @ [?F] @ [?S]) (slice0 ((h @ [?F] @ [?S]) ! Suc (length h)) n)
              = (h @ [?F, ?S, slice0 ?S n], Suc (Suc (length h)))"
    by (simp add: alloc_def nth_append)
  have pu: "(h @ [?F, ?S, slice0 ?S n])[sel := (h @ [?F, ?S, slice0 ?S n]) ! sel
               @ (h @ [?F, ?S, slice0 ?S n]) ! Suc (Suc (length h))] = ?hs"
    using Cons.prems(2) by (simp add: nth_append list_update_append)
  have step: "select_levels_at qa (en # entries) sel h rnd = select_levels_at qa entries sel ?hs ?rnd1"
    using g sh al pu by (simp add: en)
  have p1: "qa < length ?hs" and p2: "sel < length ?hs"
    using Cons.prems by simp_all
  have q: "?hs ! qa = h ! qa" and s: "?hs ! sel = h ! sel @ slice0 ?S n"
    using Cons.prems by (simp_all add: nth_append)
  from Cons.IH [OF p1 p2 Cons.prems(3), of ?rnd1]
  obtain h' where
    r: "select_levels_at qa entries sel ?hs ?rnd1 =
          (h', snd (select_levels ?svc entries (h ! sel @ slice0 ?S n) ?rnd1))"
    and le: "length ?hs \<le> length h'"
    and c: "h' ! sel = fst (select_levels ?svc entries (h ! sel @ slice0 ?S n) ?rnd1)"
    and o: "\<forall>a < length ?hs. a \<noteq> sel \<longrightarrow> h' ! a = ?hs ! a"
    unfolding q s by blast
  have pure: "select_levels ?svc (en # entries) (h ! sel) rnd
                = select_levels ?svc entries (h ! sel @ slice0 ?S n) ?rnd1"
    by (simp add: en split: prod.splits)
  have "h' ! a = h ! a" if "a < length h" and "a \<noteq> sel" for a
  proof -
    from that have "a < length ?hs" by simp
    with o that(2) have "h' ! a = ?hs ! a" by blast
    also have "\<dots> = h ! a" using that by (simp add: nth_append)
    finally show ?thesis .
  qed
  moreover have "length h \<le> length h'"
    using le by simp
  ultimately show ?case
    using step r c pure by simp
qed

lemma selectQuestionsForTest_at_eq:
  assumes "qa < length h"
  shows "\<exists>h' r. selectQuestionsForTest_at qa cfg h rnd =
                  ((h', r), snd (selectQuestionsForTest \<lparr>svc_questions = h ! qa\<rparr> cfg rnd))
               \<and> length h \<le> r \<and> r < length h'
               \<and> h' ! r = fst (selectQuestionsForTest \<lparr>svc_questions = h ! qa\<rparr> cfg rnd)
               \<and> (\<forall>a < length h. h' ! a = h ! a)"
proof -
  let ?svc = "\<lparr>svc_questions = h ! qa\<rparr>"
  let ?entries = "level_entries cfg"
  let ?h0 = "h @ [[]]"
  have p1: "qa < length ?h0" and p2: "length h < length ?h0" and p3: "qa \<noteq> length h"
    using assms by simp_all
  have q: "?h0 ! qa = h ! qa" and s: "?h0 ! length h = []"
    using assms by (simp_all add: nth_append)
  from select_levels_at_eq [OF p1 p2 p3, of ?entries rnd]
  obtain h1 where
    r: "select_levels_at qa ?entries (length h) ?h0 rnd = (h1, snd (select_levels ?svc ?entries [] rnd))"
    and le: "length ?h0 \<le> length h1"
    and c: "h1 ! length h = fst (select_levels ?svc ?entries [] rnd)"
    and o: "\<forall>a < length ?h0. a \<noteq> length h \<longrightarrow> h1 ! a = ?h0 ! a"
    unfolding q s by blast
  let ?sel = "fst (select_levels ?svc ?entries [] rnd)"
  let ?rnd1 = "snd (select_levels ?svc ?entries [] rnd)"
  have l1: "length h < length h1" using le by simp
  have sh: "shuffleArray_at (length h) h1 ?rnd1 =
      ((h1 @ [fst (shuffleArray ?sel ?rnd1)], length h1), snd (shuffleArray ?sel ?rnd1))"
    using l1 c by (simp add: shuffleArray_at_eq)
  have at: "selectQuestionsForTest_at qa cfg h rnd =
      ((h1 @ [fst (shuffleArray ?sel ?rnd1)], length h1), snd (shuffleArray ?sel ?rnd1))"
    using r sh by (simp add: selectQuestionsForTest_at_def alloc_def Let_def)
  have pure: "selectQuestionsForTest ?svc cfg rnd = shuffleArray ?sel ?rnd1"
    by (simp add: selectQuestionsForTest_def Let_def split: prod.splits)
  have old: "(h1 @ [fst (shuffleArray ?sel ?rnd1)]) ! a = h ! a" if "a < length h" for a
  proof -
    from that l1 have "(h1 @ [fst (shuffleArray ?sel ?rnd1)]) ! a = h1 ! a"
      by (simp add: nth_append)
    also from that o have "\<dots> = ?h0 ! a" by simp
    also from that have "\<dots> = h ! a" by (simp add: nth_append)
    finally show ?thesis .
  qed
  from at pure old l1 show ?thesis
    by (simp add: nth_append)
qed

lemma fair_zero: "fair (\<lambda>k n. 0)"
  by (simp add: fair_def)

lemma bank_demo_levels:
  "length (getQuestionsByLevel \<lparr>svc_questions = bank_demo\<rparr> ''A1'') = 5"
  "length (getQuestionsByLevel \<lparr>svc_questions = bank_demo\<rparr> ''A2'') = 5"
  "length (getQuestionsByLevel \<lparr>svc_questions = bank_demo\<rparr> ''B1'') = 5"
  "length (getQuestionsByLevel \<lparr>svc_questions = bank_demo\<rparr> ''B2'') = 5"
  by (simp_all add: getQuestionsByLevel_def bank_demo_def level_block_def q_of_def)

lemma bank_demo_ids: "distinct (map q_id bank_demo)"
  by (simp add: bank_demo_def level_block_def q_of_def)

lemma bank_dup_levels:
  "getQuestionsByLevel \<lparr>svc_questions = bank_dup\<rparr> ''A1'' = level_block 0 ''A1''"
  "getQuestionsByLevel \<lparr>svc_questions = bank_dup\<rparr> ''A2'' = level_block 0 ''A2''"
  "getQuestionsByLevel \<lparr>svc_questions = bank_dup\<rparr> ''B1'' = level_block 0 ''B1''"
  "getQuestionsByLevel \<lparr>svc_questions = bank_dup\<rparr> ''B2'' = level_block 0 ''B2''"
  by (simp_all add: getQuestionsByLevel_def bank_dup_def level_block_def q_of_def)

lemma shuffle_five:
  "shuffleArray [a, b, c, d, e] (\<lambda>k n. 0) = ([b, c, d, e, a], \<lambda>k n. 0)"
  by (simp add: shuffleArray_def numeral_eq_Suc Let_def)


text \<open>
  Validation does not ask for distinct ids. On a bank of five questions in every level
  in which the levels share their ids, the twenty selected questions repeat ids.
\<close>

theorem select_twenty_repeats_ids:
  "\<not> distinct (map q_id (fst (selectQuestionsForTest \<lparr>svc_questions = bank_dup\<rparr> cfg_twenty (\<lambda>k n. 0))))
   \<and> (\<forall>coerce. validateQuestions coerce (bank_json bank_dup) = Inr ())
   \<and> length (getQuestionsByLevel \<lparr>svc_questions = bank_dup\<rparr> ''A1'') = 5
   \<and> length (getQuestionsByLevel \<lparr>svc_questions = bank_dup\<rparr> ''A2'') = 5
   \<and> length (getQuestionsByLevel \<lparr>svc_questions = bank_dup\<rparr> ''B1'') = 5
   \<and> length (getQuestionsByLevel \<lparr>svc_questions = bank_dup\<rparr> ''B2'') = 5"
proof -
  let ?sel = "[q_of 2 ''A1'', q_of 3 ''A1'', q_of 4 ''A1'', q_of 5 ''A1'', q_of 1 ''A1'',
          q_of 2 ''A2'', q_of 3 ''A2'', q_of 4 ''A2'', q_of 5 ''A2'', q_of 1 ''A2'',
          q_of 2 ''B1'', q_of 3 ''B1'', q_of 4 ''B1'', q_of 5 ''B1'', q_of 1 ''B1'',
          q_of 2 ''B2'', q_of 3 ''B2'', q_of 4 ''B2'', q_of 5 ''B2'', q_of 1 ''B2'']"
  let ?r = "fst (selectQuestionsForTest \<lparr>svc_questions = bank_dup\<rparr> cfg_twenty (\<lambda>k n. 0))"
  have e: "level_entries cfg_twenty = [(''A1'', 5), (''A2'', 5), (''B1'', 5), (''B2'', 5)]"
    by (simp add: level_entries_def cfg_twenty_def)
  have s: "select_levels \<lparr>svc_questions = bank_dup\<rparr> (level_entries cfg_twenty) [] (\<lambda>k n. 0)
      = (?sel, \<lambda>k n. 0)"
    by (simp add: e bank_dup_levels level_block_def shuffle_five slice0_def)
  have "?r = fst (shuffleArray ?sel (\<lambda>k n. 0))"
    by (simp add: selectQuestionsForTest_def s)
  then have "mset ?r = mset ?sel"
    by (simp only: shuffleArray_mset [OF fair_zero])
  then have "image_mset q_id (mset ?r) = image_mset q_id (mset ?sel)"
    by (rule arg_cong)
  then have "mset (map q_id ?r) = mset (map q_id ?sel)"
    by (simp only: mset_map)
  then have "distinct (map q_id ?r) \<longleftrightarrow> distinct (map q_id ?sel)"
    by (rule mset_eq_imp_distinct_iff)
  moreover have "\<not> distinct (map q_id ?sel)"
    by (simp add: q_of_def)
  ultimately have r: "\<not> distinct (map q_id ?r)"
    by blast
  have "\<forall>q \<in> set bank_dup. spec_valid_question (question_json q)"
    by (simp add: bank_dup_def level_block_def spec_valid_q_of validLevels_def)
  then have v: "validateQuestions coerce (bank_json bank_dup) = Inr ()" for coerce
    by (rule validateQuestions_valid_bank)
  from r v show ?thesis
    by (simp add: bank_dup_levels level_block_def)
qed

text \<open>
  C7. On a bank with at least 5 questions in each of the four levels and pairwise
  distinct ids, the selection for 20 questions without quotas per level returns, for
  every random source, 20 questions with pairwise distinct ids, 5 of each level, none
  more often than the bank has it. The result is a new array; every array that
  existed before the call, the bank of the service among them, holds what it held.
\<close>

theorem select_twenty_of_distinct_bank:
  assumes fair: "fair rnd"
    and per: "tc_questionsPerLevel cfg = None"
    and total: "tc_totalQuestions cfg = None \<or> tc_totalQuestions cfg = Some 20"
    and addr: "this_questions < length h"
    and enough: "\<forall>l \<in> set [''A1'', ''A2'', ''B1'', ''B2''].
                   5 \<le> length (getQuestionsByLevel \<lparr>svc_questions = h ! this_questions\<rparr> l)"
    and ids: "distinct (map q_id (h ! this_questions))"
  shows "(case selectQuestionsForTest_at this_questions cfg h rnd of
            ((h', r), rnd') \<Rightarrow>
               h' ! r = fst (selectQuestionsForTest \<lparr>svc_questions = h ! this_questions\<rparr> cfg rnd)
             \<and> length (h' ! r) = 20
             \<and> distinct (map q_id (h' ! r))
             \<and> (\<forall>l \<in> set [''A1'', ''A2'', ''B1'', ''B2''].
                   length (filter (\<lambda>q. q_level q = Some l) (h' ! r)) = 5)
             \<and> mset (h' ! r) \<subseteq># mset (h ! this_questions)
             \<and> (\<forall>a < length h. h' ! a = h ! a)
             \<and> length h \<le> r
             \<and> fair rnd')"
proof -
  let ?svc = "\<lparr>svc_questions = h ! this_questions\<rparr>"
  from selectQuestionsForTest_at_eq [OF addr, of cfg rnd]
  obtain h' r where
    at: "selectQuestionsForTest_at this_questions cfg h rnd = ((h', r), snd (selectQuestionsForTest ?svc cfg rnd))"
    and fresh: "length h \<le> r"
    and c: "h' ! r = fst (selectQuestionsForTest ?svc cfg rnd)"
    and old: "\<forall>a < length h. h' ! a = h ! a"
    by blast
  have ids': "distinct (map q_id (svc_questions ?svc))"
    using ids by simp
  from select_twenty_pure [OF fair per total enough ids']
  have "length (h' ! r) = 20
      \<and> distinct (map q_id (h' ! r))
      \<and> (\<forall>l \<in> set [''A1'', ''A2'', ''B1'', ''B2''].
            length (filter (\<lambda>q. q_level q = Some l) (h' ! r)) = 5)
      \<and> mset (h' ! r) \<subseteq># mset (h ! this_questions)
      \<and> fair (snd (selectQuestionsForTest ?svc cfg rnd))"
    unfolding c by (simp add: split_beta)
  with at fresh c old show ?thesis by simp
qed



theorem select_twenty_of_distinct_bank_witness:
  "(case selectQuestionsForTest_at 0 cfg_twenty [bank_demo] (\<lambda>k n. 0) of
      ((h', r), rnd') \<Rightarrow>
         length (h' ! r) = 20 \<and> distinct (map q_id (h' ! r)) \<and> h' ! 0 = bank_demo \<and> 0 < r
       \<and> length (filter (\<lambda>q. q_level q = Some ''B2'') (h' ! r)) = 5)"
proof -
  have per: "tc_questionsPerLevel cfg_twenty = None"
    and total: "tc_totalQuestions cfg_twenty = None \<or> tc_totalQuestions cfg_twenty = Some 20"
    by (simp_all add: cfg_twenty_def)
  have addr: "0 < length [bank_demo]" by simp
  have enough: "\<forall>l \<in> set [''A1'', ''A2'', ''B1'', ''B2''].
                   5 \<le> length (getQuestionsByLevel \<lparr>svc_questions = [bank_demo] ! 0\<rparr> l)"
    by (simp add: bank_demo_levels)
  have ids: "distinct (map q_id ([bank_demo] ! 0))"
    by (simp add: bank_demo_ids)
  from select_twenty_of_distinct_bank [OF fair_zero per total addr enough ids]
  show ?thesis
    by (auto split: prod.splits)
qed


section \<open>Rounding to doubles\<close>

lemma pow2_powi: "pow2 k = power_int 2 k"
  by (simp add: pow2_def power_int_def power_one_over inverse_eq_divide)

lemma pow2_pos: "0 < pow2 k"
  by (simp add: pow2_powi)

lemma pow2_add: "pow2 (a + b) = pow2 a * pow2 b"
  by (simp add: pow2_powi power_int_add)

lemma pow2_nat: "pow2 (int n) = 2 ^ n"
  by (simp add: pow2_def)

lemma pow2_0: "pow2 0 = 1"
  by (simp add: pow2_def)

lemma pow2_Suc: "pow2 (k + 1) = 2 * pow2 k"
proof -
  have "pow2 1 = 2" by (simp add: pow2_def)
  then show ?thesis by (simp add: pow2_add)
qed

lemma pow2_cancel: "pow2 a * pow2 (- a) = 1"
proof -
  have "pow2 a * pow2 (- a) = pow2 (a + - a)"
    by (simp only: pow2_add)
  then show ?thesis by (simp add: pow2_0)
qed

text \<open>The number of binary digits of a positive integer brackets it.\<close>

lemma bitlen_brackets:
  assumes "0 < p"
  shows "pow2 (bitlen p - 1) \<le> of_int p" and "of_int p < pow2 (bitlen p)"
proof -
  from bitlen_bounds [OF assms]
  have lo: "2 ^ nat (bitlen p - 1) \<le> p" and hi: "p < 2 ^ nat (bitlen p)"
    by simp_all
  from assms have "bitlen p \<noteq> 0"
    by (simp add: bitlen_eq_zero_iff)
  with bitlen_nonneg [of p] have b: "1 \<le> bitlen p"
    by linarith
  have "(2::rat) ^ nat (bitlen p - 1) = of_int (2 ^ nat (bitlen p - 1))"
    by simp
  also have "\<dots> \<le> of_int p"
    using lo by (simp only: of_int_le_iff)
  finally show "pow2 (bitlen p - 1) \<le> of_int p"
    using b by (simp add: pow2_def)
  have "(of_int p :: rat) < of_int (2 ^ nat (bitlen p))"
    using hi by (simp only: of_int_less_iff)
  also have "\<dots> = 2 ^ nat (bitlen p)"
    by simp
  finally show "of_int p < pow2 (bitlen p)"
    using b by (simp add: pow2_def)
qed

lemma floor_log2_bounds:
  assumes "0 < x"
  shows "pow2 (floor_log2 x) \<le> x" and "x < pow2 (floor_log2 x + 1)"
proof -
  obtain p q where pq: "quotient_of x = (p, q)"
    by (cases "quotient_of x")
  then have q: "0 < q" and x: "x = of_int p / of_int q"
    by (simp_all add: quotient_of_denom_pos quotient_of_div)
  from assms q x have p: "0 < p"
    by (simp add: zero_less_divide_iff)
  define lp where "lp = bitlen p"
  define lq where "lq = bitlen q"
  define k0 where "k0 = lp - lq"
  have qr: "0 < (of_int q :: rat)" using q by simp
  have xq: "x * of_int q = of_int p"
    using q by (simp add: x)
  have plo: "pow2 (lp - 1) \<le> of_int p" and phi: "of_int p < pow2 lp"
    unfolding lp_def using bitlen_brackets [OF p] by simp_all
  have qlo: "pow2 (lq - 1) \<le> of_int q" and qhi: "of_int q < pow2 lq"
    unfolding lq_def using bitlen_brackets [OF q] by simp_all
  have "x * of_int q < pow2 (k0 + 1) * of_int q"
  proof -
    have "x * of_int q < pow2 lp"
      using phi by (simp only: xq)
    also have "pow2 lp = pow2 ((k0 + 1) + (lq - 1))"
      by (simp add: k0_def)
    also have "\<dots> = pow2 (k0 + 1) * pow2 (lq - 1)"
      by (simp only: pow2_add)
    also have "\<dots> \<le> pow2 (k0 + 1) * of_int q"
      using qlo pow2_pos [of "k0 + 1"] by (simp add: mult_left_mono)
    finally show ?thesis .
  qed
  then have up: "x < pow2 (k0 + 1)"
    using qr by (simp only: mult_less_cancel_right_pos)
  have "pow2 (k0 - 1) * of_int q < x * of_int q"
  proof -
    have "pow2 (k0 - 1) * of_int q < pow2 (k0 - 1) * pow2 lq"
      using qhi pow2_pos [of "k0 - 1"] by (simp add: mult_strict_left_mono)
    also have "\<dots> = pow2 ((k0 - 1) + lq)"
      by (simp only: pow2_add)
    also have "\<dots> = pow2 (lp - 1)"
      by (simp add: k0_def)
    also have "\<dots> \<le> x * of_int q"
      using plo by (simp only: xq)
    finally show ?thesis .
  qed
  then have lo: "pow2 (k0 - 1) < x"
    using qr by (simp only: mult_less_cancel_right_pos)
  have f: "floor_log2 x = (if pow2 k0 \<le> x then k0 else k0 - 1)"
    by (simp add: floor_log2_def pq k0_def lp_def lq_def Let_def)
  show "pow2 (floor_log2 x) \<le> x"
    using lo by (simp add: f)
  show "x < pow2 (floor_log2 x + 1)"
    using up by (simp add: f)
qed

lemma round_ties_even_error: "\<bar>of_int (round_ties_even m) - m\<bar> \<le> 1 / 2"
proof -
  have "of_int \<lfloor>m\<rfloor> \<le> m" and "m < of_int \<lfloor>m\<rfloor> + 1"
    by linarith+
  then show ?thesis
    by (auto simp: round_ties_even_def Let_def)
qed


text \<open>Rounding to a double changes a number by at most the fraction \<open>2^-53\<close> of it.\<close>

lemma to_double_error: "\<bar>to_double x - x\<bar> \<le> \<bar>x\<bar> * pow2 (- 53)"
proof (cases "x = 0")
  case True
  then show ?thesis by (simp add: to_double_def)
next
  case False
  define a where "a = \<bar>x\<bar>"
  define k where "k = floor_log2 a"
  define m where "m = round_ties_even (a * pow2 (52 - k))"
  from False have a: "0 < a" by (simp add: a_def)
  have lo: "pow2 k \<le> a"
    unfolding k_def using a by (rule floor_log2_bounds)
  have td: "to_double x = sgn x * (of_int m * pow2 (k - 52))"
    using False by (simp add: to_double_def Let_def a_def k_def m_def)
  have xs: "x = sgn x * a"
    by (simp add: a_def mult.commute abs_sgn)
  have "to_double x - x = sgn x * (of_int m * pow2 (k - 52) - a)"
    by (subst xs) (simp add: td algebra_simps)
  then have "\<bar>to_double x - x\<bar> = \<bar>sgn x\<bar> * \<bar>of_int m * pow2 (k - 52) - a\<bar>"
    by (simp only: abs_mult)
  also have "\<bar>sgn x\<bar> = 1"
    using False by (simp add: abs_sgn_eq)
  finally have e1: "\<bar>to_double x - x\<bar> = \<bar>of_int m * pow2 (k - 52) - a\<bar>"
    by simp
  have c: "pow2 (52 - k) * pow2 (k - 52) = 1"
    using pow2_cancel [of "52 - k"] by simp
  have "of_int m * pow2 (k - 52) - a = (of_int m - a * pow2 (52 - k)) * pow2 (k - 52)"
  proof -
    have "(of_int m - a * pow2 (52 - k)) * pow2 (k - 52)
        = of_int m * pow2 (k - 52) - a * (pow2 (52 - k) * pow2 (k - 52))"
      by (simp add: algebra_simps)
    then show ?thesis by (simp only: c mult_1_right)
  qed
  then have "\<bar>of_int m * pow2 (k - 52) - a\<bar> = \<bar>of_int m - a * pow2 (52 - k)\<bar> * pow2 (k - 52)"
    using pow2_pos [of "k - 52"] by (simp add: abs_mult)
  also have "\<dots> \<le> (1 / 2) * pow2 (k - 52)"
    using round_ties_even_error [of "a * pow2 (52 - k)"] pow2_pos [of "k - 52"]
    unfolding m_def by (intro mult_right_mono) simp_all
  also have "\<dots> = pow2 (k - 53)"
    using pow2_Suc [of "k - 53"] by simp
  also have "\<dots> = pow2 k * pow2 (- 53)"
    using pow2_add [of k "- 53"] by simp
  also have "\<dots> \<le> a * pow2 (- 53)"
    using lo pow2_pos [of "- 53"] by (intro mult_right_mono) simp_all
  finally show ?thesis
    by (simp only: e1 a_def)
qed


lemma percent_double_error:
  assumes e: "0 \<le> e" and et: "e \<le> t" and t: "0 < t"
  shows "\<bar>to_double (to_double (of_int e / of_int t) * 100) - of_int (100 * e) / of_int t\<bar>
           \<le> 300 * pow2 (- 53)"
proof -
  define u where "u = pow2 (- 53)"
  define r :: rat where "r = of_int e / of_int t"
  define q where "q = to_double r"
  define p where "p = to_double (q * 100)"
  have u0: "0 < u" and u1: "u \<le> 1"
    by (simp_all add: u_def pow2_def)
  have r0: "0 \<le> r" and r1: "r \<le> 1"
    using e et t by (simp_all add: r_def)
  have qr: "\<bar>q - r\<bar> \<le> r * u"
    using to_double_error [of r] r0 by (simp add: q_def u_def)
  then have qa: "\<bar>q\<bar> \<le> r + r * u"
    using r0 by linarith
  have "\<bar>p - q * 100\<bar> \<le> \<bar>q * 100\<bar> * u"
    using to_double_error [of "q * 100"] by (simp only: p_def u_def)
  also have "\<bar>q * 100\<bar> * u = 100 * u * \<bar>q\<bar>"
    by (simp add: abs_mult)
  also have "\<dots> \<le> 100 * u * (r + r * u)"
    using qa u0 by (intro mult_left_mono) simp_all
  finally have pq: "\<bar>p - q * 100\<bar> \<le> 100 * u * (r + r * u)" .
  have ru: "r * u \<le> u"
    using r1 u0 by (simp add: mult_le_cancel_right1)
  have ruu: "r * u * u \<le> u"
  proof -
    have "r * u * u \<le> u * u"
      using ru u0 by (simp add: mult_right_mono)
    also have "\<dots> \<le> u"
      using u1 u0 by (simp add: mult_le_cancel_right1)
    finally show ?thesis .
  qed
  have qr': "\<bar>q * 100 - 100 * r\<bar> \<le> 100 * (r * u)"
    using qr by linarith
  have "\<bar>p - 100 * r\<bar> \<le> \<bar>p - q * 100\<bar> + \<bar>q * 100 - 100 * r\<bar>"
    by linarith
  also have "\<dots> \<le> 100 * u * (r + r * u) + 100 * (r * u)"
    using pq qr' by linarith
  also have "\<dots> = 200 * (r * u) + 100 * (r * u * u)"
    by (simp add: algebra_simps)
  also have "\<dots> \<le> 300 * u"
    using ru ruu by linarith
  finally have "\<bar>p - 100 * r\<bar> \<le> 300 * u" .
  moreover have "100 * r = of_int (100 * e) / of_int t"
    by (simp add: r_def)
  ultimately show ?thesis
    by (simp only: p_def q_def r_def u_def)
qed


text \<open>
  For weights that sum to less than \<open>2^40\<close> the percentage computed on doubles is the
  exact percentage rounded to a nearest integer; it is the lower one at some ties.
\<close>

lemma round_percent_near:
  assumes e: "0 \<le> e" and et: "e \<le> t" and t: "0 < t" and small: "t < 2 ^ 40"
  shows "\<bar>of_int (round_percent e t) - of_int (100 * e) / of_int t\<bar> \<le> (1 / 2 :: rat)"
    and "round_percent e t = exact_percent e t
         \<or> (round_percent e t = exact_percent e t - 1
             \<and> (of_int (exact_percent e t) :: rat) = of_int (100 * e) / of_int t + 1 / 2)"
proof -
  define T :: rat where "T = of_int t"
  define X where "X = of_int (100 * e) / T"
  define p where "p = to_double (to_double (of_int e / of_int t) * 100)"
  define N where "N = \<lfloor>p + 1 / 2\<rfloor>"
  define eps where "eps = 300 * pow2 (- 53)"
  define A where "A = 200 * e"
  define B1 where "B1 = (2 * N - 1) * t"
  define B2 where "B2 = (2 * N + 1) * t"
  have N: "round_percent e t = N"
    by (simp add: round_percent_def Math_round_def N_def p_def)
  have R: "exact_percent e t = \<lfloor>X + 1 / 2\<rfloor>"
    by (simp add: exact_percent_def Math_round_def X_def T_def)
  have T0: "0 < T"
    using t by (simp add: T_def)
  have "of_int t < (of_int (2 ^ 40) :: rat)"
    using small by (simp only: of_int_less_iff)
  then have T1: "T < 1099511627776"
    by (simp add: T_def)
  have eps: "2 * T * eps < 1"
    using T1 by (simp add: eps_def pow2_def)
  have pX: "\<bar>p - X\<bar> \<le> eps"
    using percent_double_error [OF e et t] by (simp only: p_def X_def T_def eps_def)
  have fl: "of_int N \<le> p + 1 / 2" and fu: "p + 1 / 2 < of_int N + 1"
    unfolding N_def by linarith+
  have lower: "of_int N - 1 / 2 - eps \<le> X" and upper: "X < of_int N + 1 / 2 + eps"
    using pX fl fu by linarith+
  have a: "X * (2 * T) = of_int A"
    using T0 by (simp add: X_def A_def)
  have b1: "(of_int N - 1 / 2 - eps) * (2 * T) = of_int B1 - 2 * T * eps"
    by (simp add: B1_def T_def algebra_simps)
  have b2: "(of_int N + 1 / 2 + eps) * (2 * T) = of_int B2 + 2 * T * eps"
    by (simp add: B2_def T_def algebra_simps)
  have c1: "(of_int N - 1 / 2) * (2 * T) = of_int B1"
    by (simp add: B1_def T_def algebra_simps)
  have c2: "(of_int N + 1 / 2) * (2 * T) = of_int B2"
    by (simp add: B2_def T_def algebra_simps)
  have L: "of_int N - 1 / 2 \<le> X"
  proof -
    have "(of_int N - 1 / 2 - eps) * (2 * T) \<le> X * (2 * T)"
      using lower T0 by (intro mult_right_mono) simp_all
    then have "of_int B1 - 2 * T * eps \<le> (of_int A :: rat)"
      by (simp only: a b1)
    then have "of_int B1 - 1 < (of_int A :: rat)"
      using eps by linarith
    then have "(of_int (B1 - 1) :: rat) < of_int A"
      by simp
    then have "B1 - 1 < A"
      by (simp only: of_int_less_iff)
    then have "B1 \<le> A"
      by simp
    then have "(of_int B1 :: rat) \<le> of_int A"
      by (simp only: of_int_le_iff)
    then have "(of_int N - 1 / 2) * (2 * T) \<le> X * (2 * T)"
      by (simp only: a c1)
    then show ?thesis
      using T0 by (simp add: mult_le_cancel_right)
  qed
  have U: "X \<le> of_int N + 1 / 2"
  proof -
    have "X * (2 * T) < (of_int N + 1 / 2 + eps) * (2 * T)"
      using upper T0 by (intro mult_strict_right_mono) simp_all
    then have "(of_int A :: rat) < of_int B2 + 2 * T * eps"
      by (simp only: a b2)
    then have "(of_int A :: rat) < of_int B2 + 1"
      using eps by linarith
    then have "(of_int A :: rat) < of_int (B2 + 1)"
      by simp
    then have "A < B2 + 1"
      by (simp only: of_int_less_iff)
    then have "A \<le> B2"
      by simp
    then have "(of_int A :: rat) \<le> of_int B2"
      by (simp only: of_int_le_iff)
    then have "X * (2 * T) \<le> (of_int N + 1 / 2) * (2 * T)"
      by (simp only: a c2)
    then show ?thesis
      using T0 by (simp add: mult_le_cancel_right)
  qed
  from L U show "\<bar>of_int (round_percent e t) - of_int (100 * e) / of_int t\<bar> \<le> (1 / 2 :: rat)"
    unfolding N X_def T_def by linarith
  show "round_percent e t = exact_percent e t
         \<or> (round_percent e t = exact_percent e t - 1
             \<and> (of_int (exact_percent e t) :: rat) = of_int (100 * e) / of_int t + 1 / 2)"
  proof (cases "X + 1 / 2 < of_int N + 1")
    case True
    have "\<lfloor>X + 1 / 2\<rfloor> = N"
      using L True by (intro floor_unique) linarith+
    then show ?thesis
      by (simp add: N R)
  next
    case False
    with U have tie: "X + 1 / 2 = of_int (N + 1)"
      by simp
    then have "\<lfloor>X + 1 / 2\<rfloor> = N + 1"
      by (simp only: floor_of_int)
    with tie show ?thesis
      by (simp add: N R X_def T_def)
  qed
qed






text \<open>
  \<open>Math.random\<close> returns a double that is at least 0 and below 1, so at most
  \<open>1 - 2^-53\<close>. The floor of its product with an array length, rounded to a double, is
  an index of the array: every sequence of such doubles is a fair random source.
\<close>

lemma floor_times_below:
  assumes r0: "0 \<le> r" and r1: "r \<le> 1 - pow2 (- 53)" and n: "0 < n"
  shows "floor_times r n < n"
proof -
  define u where "u = pow2 (- 53)"
  define x where "x = r * of_nat n"
  have u0: "0 < u"
    by (simp add: u_def pow2_pos)
  have x0: "0 \<le> x"
    using r0 by (simp add: x_def)
  have "to_double x - x \<le> \<bar>to_double x - x\<bar>"
    by simp
  also have "\<dots> \<le> x * u"
    using to_double_error [of x] x0 by (simp add: u_def)
  finally have "to_double x \<le> x * (1 + u)"
    by (simp add: algebra_simps)
  also have "\<dots> \<le> ((1 - u) * of_nat n) * (1 + u)"
  proof -
    have "x \<le> (1 - u) * of_nat n"
      unfolding x_def using r1 by (intro mult_right_mono) (simp_all add: u_def)
    then show ?thesis
      using u0 by (intro mult_right_mono) simp_all
  qed
  also have "\<dots> = of_nat n - of_nat n * (u * u)"
    by (simp add: algebra_simps)
  also have "\<dots> < of_nat n"
    using n u0 by simp
  finally have "to_double x < of_int (int n)"
    by simp
  then have "\<lfloor>to_double x\<rfloor> < int n"
    by (simp only: floor_less_iff)
  then show ?thesis
    using n by (simp add: floor_times_def x_def nat_less_iff)
qed

lemma fair_floor_times:
  assumes "\<forall>k. 0 \<le> u k \<and> u k \<le> 1 - pow2 (- 53)"
  shows "fair (\<lambda>k n. floor_times (u k) n)"
  using assms by (simp add: fair_def floor_times_below)

section \<open>The percentage score\<close>

lemma tally_answer_weights:
  "t_totalWeight (tally_answer cfg qs t a) = t_totalWeight t + matched_weight cfg qs a"
  "t_earnedWeight (tally_answer cfg qs t a)
     = t_earnedWeight t + (if r_isCorrect a then matched_weight cfg qs a else 0)"
  by (simp_all add: tally_answer_def matched_weight_def Let_def split: option.splits)

lemma tally_answers_weights:
  "t_totalWeight (tally_answers cfg qs t as) = t_totalWeight t + sum_list (map (matched_weight cfg qs) as)"
  "t_earnedWeight (tally_answers cfg qs t as)
     = t_earnedWeight t + sum_list (map (matched_weight cfg qs) (filter r_isCorrect as))"
  by (induction as arbitrary: t) (simp_all add: tally_answer_weights)

lemma matched_weight_nonneg:
  assumes "\<forall>q \<in> set qs. 0 \<le> resolve_weight cfg q"
  shows "0 \<le> matched_weight cfg qs a"
proof (cases "find (\<lambda>q. q_id q = Some (r_questionId a)) qs")
  case None
  then show ?thesis by (simp add: matched_weight_def)
next
  case (Some q)
  then have "q \<in> set qs"
    by (auto simp: find_Some_iff)
  with assms Some show ?thesis by (simp add: matched_weight_def)
qed

lemma sum_list_filter_le:
  assumes "\<forall>a \<in> set as. (0::int) \<le> f a"
  shows "0 \<le> sum_list (map f (filter P as)) \<and> sum_list (map f (filter P as)) \<le> sum_list (map f as)"
  using assms
proof (induction as)
  case Nil
  show ?case by simp
next
  case (Cons a as)
  then have "0 \<le> f a" and "0 \<le> sum_list (map f (filter P as)) \<and> sum_list (map f (filter P as)) \<le> sum_list (map f as)"
    by simp_all
  then show ?case by simp
qed

lemma round_percent_8_10: "round_percent 8 10 = 80"
  by code_simp

lemma round_percent_23_40: "round_percent 23 40 = 57"
  by code_simp

lemma exact_percent_23_40: "exact_percent 23 40 = 58"
  by code_simp




lemma calculateAssessment_weights:
  "earnedWeight (calculateAssessment cfg now s qs)
     = sum_list (map (matched_weight cfg qs) (filter r_isCorrect (answers s)))"
  "totalWeight (calculateAssessment cfg now s qs) = sum_list (map (matched_weight cfg qs) (answers s))"
  "percentageScore (calculateAssessment cfg now s qs)
     = (if 0 < sum_list (map (matched_weight cfg qs) (answers s))
        then round_percent (sum_list (map (matched_weight cfg qs) (filter r_isCorrect (answers s))))
               (sum_list (map (matched_weight cfg qs) (answers s)))
        else 0)"
  "level (calculateAssessment cfg now s qs)
     = determineLevel cfg (percentageScore (calculateAssessment cfg now s qs))"
  by (simp_all add: calculateAssessment_def Let_def tally_answers_weights tally0_def)

lemma tie_weights:
  "sum_list (map (matched_weight getDefaultConfig qs_tie) (filter r_isCorrect (answers s_tie))) = 23"
  "sum_list (map (matched_weight getDefaultConfig qs_tie) (answers s_tie)) = 40"
  by (simp_all add: s_tie_def qs_tie_def s_demo_def q_of_def matched_weight_def resolve_weight_def
      js_or_def or_one_def)

lemma negative_weights:
  "sum_list (map (matched_weight getDefaultConfig qs_negative) (answers s_negative)) = - 3"
  by (simp add: s_negative_def qs_negative_def s_demo_def q_of_def matched_weight_def resolve_weight_def
      js_or_def or_one_def)

lemma levels_weights:
  "sum_list (map (matched_weight getDefaultConfig qs_levels) (filter r_isCorrect (answers s_levels))) = 8"
  "sum_list (map (matched_weight getDefaultConfig qs_levels) (answers s_levels)) = 10"
  by (simp_all add: s_levels_def qs_levels_def s_demo_def q_of_def matched_weight_def resolve_weight_def
      js_or_def or_one_def getDefaultConfig_def)

text \<open>
  With 23 of 40 points the exact percentage is 57.5, which rounds to 58. The double
  nearest to 23/40 is below it, its product with 100 rounds to the double below 57.5,
  and \<open>Math.round\<close> of that is 57.
\<close>

theorem percentageScore_tie_rounds_down:
  "earnedWeight (calculateAssessment getDefaultConfig 9 s_tie qs_tie) = 23
   \<and> totalWeight (calculateAssessment getDefaultConfig 9 s_tie qs_tie) = 40
   \<and> percentageScore (calculateAssessment getDefaultConfig 9 s_tie qs_tie) = 57
   \<and> exact_percent 23 40 = 58"
  by (simp add: calculateAssessment_weights tie_weights round_percent_23_40 exact_percent_23_40)


text \<open>
  C5. The total weight of an assessment is the sum of the resolved weights of the
  answers whose question is among the questions, the earned weight that of the correct
  ones among them. The percentage is 0 if the total weight is not positive: if it is 0
  (as for a session without answers) and also if it is negative, which a question of
  negative weight brings about. For a positive total weight it is \<open>Math.round\<close> of the
  product, in doubles, of the quotient of earned and total weight with 100. For weights
  that are not negative and a positive total below \<open>2^40\<close> it is within 1/2 of the exact
  percentage: it is the exact percentage rounded with ties up, or at a tie the integer
  below. Four answers of weights 1, 2, 3, 4, the second one wrong, give 8 of 10 and 80
  percent.
\<close>

theorem percentageScore_rounds_doubles:
  "(let a = calculateAssessment cfg now s qs;
        e = sum_list (map (matched_weight cfg qs) (filter r_isCorrect (answers s)));
        t = sum_list (map (matched_weight cfg qs) (answers s))
    in earnedWeight a = e \<and> totalWeight a = t
     \<and> percentageScore a = (if 0 < t then round_percent e t else 0)
     \<and> (t \<le> 0 \<longrightarrow> percentageScore a = 0)
     \<and> (answers s = [] \<longrightarrow> t = 0)
     \<and> ((\<forall>q \<in> set qs. 0 \<le> resolve_weight cfg q) \<and> 0 < t \<and> t < 2 ^ 40 \<longrightarrow>
           \<bar>of_int (percentageScore a) - of_int (100 * e) / of_int t\<bar> \<le> (1 / 2 :: rat)
         \<and> (percentageScore a = exact_percent e t
            \<or> (percentageScore a = exact_percent e t - 1
                \<and> (of_int (exact_percent e t) :: rat) = of_int (100 * e) / of_int t + 1 / 2))))"
proof -
  define a where "a = calculateAssessment cfg now s qs"
  define e where "e = sum_list (map (matched_weight cfg qs) (filter r_isCorrect (answers s)))"
  define t where "t = sum_list (map (matched_weight cfg qs) (answers s))"
  have ew: "earnedWeight a = e" and tw: "totalWeight a = t"
    by (simp_all add: a_def e_def t_def calculateAssessment_weights)
  have pc: "percentageScore a = (if 0 < t then round_percent e t else 0)"
    by (simp add: a_def e_def t_def calculateAssessment_weights)
  have z: "answers s = [] \<longrightarrow> t = 0"
    by (simp add: t_def)
  have near: "\<bar>of_int (percentageScore a) - of_int (100 * e) / of_int t\<bar> \<le> (1 / 2 :: rat)
         \<and> (percentageScore a = exact_percent e t
            \<or> (percentageScore a = exact_percent e t - 1
                \<and> (of_int (exact_percent e t) :: rat) = of_int (100 * e) / of_int t + 1 / 2))"
    if w: "\<forall>q \<in> set qs. 0 \<le> resolve_weight cfg q" and t0: "0 < t" and t1: "t < 2 ^ 40"
  proof -
    have nn: "\<forall>x \<in> set (answers s). 0 \<le> matched_weight cfg qs x"
      using matched_weight_nonneg [OF w] by simp
    have e0: "0 \<le> e" and et: "e \<le> t"
      unfolding e_def t_def using sum_list_filter_le [OF nn, of r_isCorrect] by simp_all
    from round_percent_near [OF e0 et t0 t1] t0 show ?thesis
      by (simp add: pc)
  qed
  from ew tw pc z near show ?thesis
    unfolding a_def e_def t_def Let_def by simp
qed



theorem percentageScore_rounds_doubles_witness:
  "earnedWeight (calculateAssessment getDefaultConfig 9 s_levels qs_levels) = 8
   \<and> totalWeight (calculateAssessment getDefaultConfig 9 s_levels qs_levels) = 10
   \<and> percentageScore (calculateAssessment getDefaultConfig 9 s_levels qs_levels) = 80
   \<and> level (calculateAssessment getDefaultConfig 9 s_levels qs_levels) = ''B2''
   \<and> percentageScore (calculateAssessment getDefaultConfig 9 s_demo [q_demo]) = 0
   \<and> totalWeight (calculateAssessment getDefaultConfig 9 s_negative qs_negative) = - 3
   \<and> percentageScore (calculateAssessment getDefaultConfig 9 s_negative qs_negative) = 0"
proof -
  have l: "level (calculateAssessment getDefaultConfig 9 s_levels qs_levels)
     = determineLevel getDefaultConfig (percentageScore (calculateAssessment getDefaultConfig 9 s_levels qs_levels))"
    by (rule calculateAssessment_weights)
  have d: "determineLevel getDefaultConfig 80 = ''B2''"
    by (simp add: determineLevel_def getDefaultConfig_def)
  have n: "answers s_demo = []"
    by (simp add: s_demo_def)
  from percentageScore_rounds_doubles [of getDefaultConfig 9 s_levels qs_levels]
  have "earnedWeight (calculateAssessment getDefaultConfig 9 s_levels qs_levels) = 8
   \<and> totalWeight (calculateAssessment getDefaultConfig 9 s_levels qs_levels) = 10
   \<and> percentageScore (calculateAssessment getDefaultConfig 9 s_levels qs_levels) = 80"
    by (simp add: Let_def levels_weights round_percent_8_10)
  moreover from percentageScore_rounds_doubles [of getDefaultConfig 9 s_demo "[q_demo]"] n
  have "percentageScore (calculateAssessment getDefaultConfig 9 s_demo [q_demo]) = 0"
    by (simp add: Let_def)
  moreover from percentageScore_rounds_doubles [of getDefaultConfig 9 s_negative qs_negative]
  have "totalWeight (calculateAssessment getDefaultConfig 9 s_negative qs_negative) = - 3
   \<and> percentageScore (calculateAssessment getDefaultConfig 9 s_negative qs_negative) = 0"
    by (simp add: Let_def negative_weights)
  ultimately show ?thesis
    using l d by simp
qed

section \<open>Checking an answer against a loaded bank\<close>

text \<open>
  X1. For a bank that passes validation and the id of one of its questions,
  \<open>checkAnswer\<close> returns whether the selected index is the correct index of the first
  question with that id, the text of the correct option, and as weight the \<open>weight\<close>
  of the question if it is present and not 0, and 1 otherwise.
\<close>

theorem checkAnswer_known_id:
  assumes "validateQuestions coerce (bank_json (svc_questions svc)) = Inr ()"
    and "getQuestionById svc questionId = Some q"
  shows "\<exists>os c. q_options q = Some os \<and> length os = 4 \<and> q_correct q = Some c \<and> 0 \<le> c \<and> c \<le> 3
           \<and> checkAnswer svc questionId selectedOption =
                Inr \<lparr>cr_isCorrect = (c = selectedOption), cr_correctAnswer = Some c,
                     cr_correctOption = Some (os ! nat c), cr_selectedOption = selectedOption,
                     cr_weight = (case q_weight q of None \<Rightarrow> 1 | Some w \<Rightarrow> if w = 0 then 1 else w)\<rparr>"
proof -
  from assms(2) have "q \<in> set (svc_questions svc)"
    by (auto simp: getQuestionById_def find_Some_iff)
  with assms(1) obtain os c where o: "q_options q = Some os" "length os = 4"
    and c: "q_correct q = Some c" "0 \<le> c" "c \<le> 3"
    using validateQuestions_bank [of coerce "svc_questions svc" q] by auto
  have "checkAnswer svc questionId selectedOption =
                Inr \<lparr>cr_isCorrect = (c = selectedOption), cr_correctAnswer = Some c,
                     cr_correctOption = Some (os ! nat c), cr_selectedOption = selectedOption,
                     cr_weight = (case q_weight q of None \<Rightarrow> 1 | Some w \<Rightarrow> if w = 0 then 1 else w)\<rparr>"
    using assms(2) o c by (simp add: checkAnswer_def option_at_def or_one_def)
  with o c show ?thesis by blast
qed

theorem checkAnswer_known_id_witness:
  "checkAnswer \<lparr>svc_questions = [q_demo, q_third]\<rparr> 3 2 =
     Inr \<lparr>cr_isCorrect = False, cr_correctAnswer = Some 1, cr_correctOption = Some ''goes'',
          cr_selectedOption = 2, cr_weight = 1\<rparr>"
proof -
  have "spec_valid_question (question_json q_third)"
    by (simp add: spec_valid_question_def rule_required_fields_def rule_four_options_def
        rule_correct_index_def rule_level_def rule_category_def get_member_question_json
        json_int_def q_demo_def q_third_def)
  then have v: "validateQuestions (\<lambda>v. Inr NaN) (bank_json (svc_questions \<lparr>svc_questions = [q_demo, q_third]\<rparr>)) = Inr ()"
    by (simp add: validateQuestions_valid_bank spec_valid_q_demo)
  have g: "getQuestionById \<lparr>svc_questions = [q_demo, q_third]\<rparr> 3 = Some q_third"
    by (simp add: getQuestionById_def q_demo_def q_third_def)
  from checkAnswer_known_id [OF v g, of 2] show ?thesis
    by (auto simp: q_third_def q_demo_def)
qed

end
